theory Spec2Isabelle
  imports Main "HOL-Library.AList"
begin

section \<open>JavaScript values\<close>

text \<open>
  The nodes exchange parsed JSON. A value is modelled as the JavaScript value the parser
  yields, with \<open>undefined\<close> added: reading a missing property yields it, and an
  assignment may store it. Numbers are restricted to integers (every number the code
  below writes or compares is one; a non-integer number would behave like any non-zero
  integer in each function here, since only identity and truthiness are inspected).
  An object is the list of its own properties in enumeration order; an object that comes
  out of \<open>JSON.parse\<close> has pairwise distinct keys.
\<close>

datatype jsval =
    JUndefined
  | JNull
  | JBool bool
  | JNum int
  | JStr string
  | JArr "jsval list"
  | JObj "(string \<times> jsval) list"

datatype js_error =
    TypeError string
  | JsError string

text \<open>Truthiness, as used by \<open>if (x)\<close>, \<open>!x\<close>, \<open>a && b\<close> and \<open>a || b\<close>.\<close>

fun truthy :: "jsval \<Rightarrow> bool" where
  "truthy JUndefined = False"
| "truthy JNull = False"
| "truthy (JBool b) = b"
| "truthy (JNum n) = (n \<noteq> 0)"
| "truthy (JStr s) = (s \<noteq> [])"
| "truthy (JArr xs) = True"
| "truthy (JObj kvs) = True"

definition js_or :: "jsval \<Rightarrow> jsval \<Rightarrow> jsval" where
  "js_or a b = (if truthy a then a else b)"

fun nullish :: "jsval \<Rightarrow> bool" where
  "nullish JUndefined = True"
| "nullish JNull = True"
| "nullish v = False"

text \<open>
  Property read \<open>v.k\<close> for the property names the code uses (\<open>type\<close>, \<open>enum\<close>,
  \<open>description\<close>, \<open>properties\<close>, \<open>id\<close>, \<open>method\<close>, \<open>params\<close>, \<open>name\<close>,
  \<open>arguments\<close>, \<open>topic\<close>, \<open>payload\<close>, \<open>executionId\<close>, \<open>error\<close>, \<open>result\<close>): none
  of them exists on the prototype of a string, number, boolean or array, so only an
  object can hold one. Reading from \<open>null\<close> or \<open>undefined\<close> throws; \<open>js_get\<close> is the read
  on a value already known not to be nullish.
\<close>

fun js_get :: "jsval \<Rightarrow> string \<Rightarrow> jsval" where
  "js_get (JObj kvs) k = (case map_of kvs k of Some v \<Rightarrow> v | None \<Rightarrow> JUndefined)"
| "js_get v k = JUndefined"

definition get_prop :: "jsval \<Rightarrow> string \<Rightarrow> js_error + jsval" where
  "get_prop v k =
     (if nullish v then Inl (TypeError (''Cannot read properties of nullish value (reading '' @ k @ '')''))
      else Inr (js_get v k))"

text \<open>Decimal rendering of a number, as \<open>Number.prototype.toString\<close> gives for integers.\<close>

definition digit_char :: "nat \<Rightarrow> char" where
  "digit_char d = char_of (d + 48)"

function decimal_of_nat :: "nat \<Rightarrow> string" where
  "decimal_of_nat n =
     (if 10 \<le> n then decimal_of_nat (n div 10) @ [digit_char (n mod 10)] else [digit_char n])"
  by pat_completeness auto
termination
proof (relation "measure (\<lambda>n. n)")
  show "wf (measure (\<lambda>n::nat. n))" by simp
next
  fix n :: nat
  assume "10 \<le> n"
  then show "(n div 10, n) \<in> measure (\<lambda>n. n)" by simp
qed

declare decimal_of_nat.simps [simp del]

definition number_to_string :: "int \<Rightarrow> string" where
  "number_to_string i =
     (if 0 \<le> i then decimal_of_nat (nat i) else CHR ''-'' # decimal_of_nat (nat (- i)))"

fun join_comma :: "string list \<Rightarrow> string" where
  "join_comma [] = []"
| "join_comma [s] = s"
| "join_comma (s # t # ss) = s @ '','' @ join_comma (t # ss)"

text \<open>
  String conversion, as a template literal \<open>`${v}`\<close> performs it: an array joins its
  elements with commas (a nullish element contributes the empty string), a plain object
  is \<open>[object Object]\<close>.
\<close>

fun to_string :: "jsval \<Rightarrow> string" where
  "to_string JUndefined = ''undefined''"
| "to_string JNull = ''null''"
| "to_string (JBool b) = (if b then ''true'' else ''false'')"
| "to_string (JNum n) = number_to_string n"
| "to_string (JStr s) = s"
| "to_string (JArr xs) = join_comma (map (\<lambda>x. if nullish x then [] else to_string x) xs)"
| "to_string (JObj kvs) = ''[object Object]''"

text \<open>\<open>v[0]\<close>: the first element of an array, the first character of a string, the
  property \<open>"0"\<close> of an object.\<close>

fun index0 :: "jsval \<Rightarrow> js_error + jsval" where
  "index0 JUndefined = Inl (TypeError ''Cannot read properties of undefined (reading 0)'')"
| "index0 JNull = Inl (TypeError ''Cannot read properties of null (reading 0)'')"
| "index0 (JArr []) = Inr JUndefined"
| "index0 (JArr (x # xs)) = Inr x"
| "index0 (JStr []) = Inr JUndefined"
| "index0 (JStr (c # cs)) = Inr (JStr [c])"
| "index0 (JObj kvs) = Inr (js_get (JObj kvs) ''0'')"
| "index0 v = Inr JUndefined"

text \<open>\<open>Object.keys\<close> of an array: its indices, as strings.\<close>

definition index_keys :: "'a list \<Rightarrow> string list" where
  "index_keys xs = map decimal_of_nat [0..<length xs]"

text \<open>\<open>Object.entries\<close>: own enumerable properties; an array and a string enumerate
  their indices, a number or boolean has none, a nullish value throws.\<close>

fun object_entries :: "jsval \<Rightarrow> js_error + (string \<times> jsval) list" where
  "object_entries JUndefined = Inl (TypeError ''Cannot convert undefined or null to object'')"
| "object_entries JNull = Inl (TypeError ''Cannot convert undefined or null to object'')"
| "object_entries (JObj kvs) = Inr kvs"
| "object_entries (JArr xs) = Inr (zip (index_keys xs) xs)"
| "object_entries (JStr s) = Inr (zip (index_keys s) (map (\<lambda>c. JStr [c]) s))"
| "object_entries v = Inr []"

section \<open>Handshake discovery: example parameters (MCP client node)\<close>

text \<open>
  The body of the \<open>switch (propDef.type)\<close> in \<open>node.generateExampleParams\<close>: the value
  assigned to \<open>example[propName]\<close>. Reading \<open>propDef.type\<close> throws when the property
  definition is \<open>null\<close>.
\<close>

definition example_value :: "jsval \<Rightarrow> js_error + jsval" where
  "example_value propDef =
     (case get_prop propDef ''type'' of
        Inl e \<Rightarrow> Inl e
      | Inr ty \<Rightarrow>
          if ty = JStr ''string'' then
            (if truthy (js_get propDef ''enum'') then index0 (js_get propDef ''enum'')
             else Inr (js_or (js_get propDef ''description'') (JStr ''example_string'')))
          else if ty = JStr ''number'' \<or> ty = JStr ''integer'' then Inr (JNum 123)
          else if ty = JStr ''boolean'' then Inr (JBool True)
          else if ty = JStr ''object'' then Inr (JObj [])
          else if ty = JStr ''array'' then Inr (JArr [])
          else Inr (js_or (js_get propDef ''description'') (JStr ''example_value'')))"

text \<open>
  The assignment \<open>example[propName] = v\<close> on the object literal \<open>example\<close>. It overwrites
  an existing own property in place and appends a new one, except for the name
  \<open>__proto__\<close>: that name is an accessor inherited from \<open>Object.prototype\<close>, so the
  assignment runs its setter (which replaces the prototype when \<open>v\<close> is an object and
  does nothing otherwise) and creates no own property.
\<close>

definition assign_property ::
  "string \<Rightarrow> jsval \<Rightarrow> (string \<times> jsval) list \<Rightarrow> (string \<times> jsval) list" where
  "assign_property propName v example =
     (if propName = ''__proto__'' then example else AList.update propName v example)"

text \<open>The \<open>for (const [propName, propDef] of Object.entries(...))\<close> loop.\<close>

fun example_loop ::
  "(string \<times> jsval) list \<Rightarrow> (string \<times> jsval) list \<Rightarrow> js_error + (string \<times> jsval) list" where
  "example_loop [] example = Inr example"
| "example_loop ((propName, propDef) # rest) example =
     (case example_value propDef of
        Inl e \<Rightarrow> Inl e
      | Inr v \<Rightarrow> example_loop rest (assign_property propName v example))"

definition generateExampleParams :: "jsval \<Rightarrow> js_error + jsval" where
  "generateExampleParams schema =
     (if \<not> truthy schema \<or> \<not> truthy (js_get schema ''properties'') then Inr (JObj [])
      else
        (case object_entries (js_get schema ''properties'') of
           Inl e \<Rightarrow> Inl e
         | Inr entries \<Rightarrow>
             (case example_loop entries [] of
                Inl e \<Rightarrow> Inl e
              | Inr example \<Rightarrow> Inr (JObj example))))"


section \<open>Flow server: tool registry, JSON-RPC dispatch, health\<close>

text \<open>
  A tool definition as \<open>registerTool\<close> of the tool registry node builds it and emits it
  with the \<open>mcp-tool-register\<close> event.
\<close>

record tool_def =
  name :: string
  description :: string
  inputSchema :: jsval
  registeredBy :: string
  registrationTime :: nat

text \<open>
  \<open>toolRegistry\<close> is a \<open>NodeCache\<close> of the external package \<open>node-cache\<close>, created
  with \<open>stdTTL: 0\<close> (entries never expire). It is modelled by the package's documented
  contract for string keys: \<open>set\<close> stores or replaces the value under a key, \<open>get\<close>
  returns the stored value or \<open>undefined\<close>, \<open>del\<close> removes the key, \<open>keys\<close> lists
  the keys. The order of \<open>keys\<close> is JavaScript's property order; here it is insertion
  order, and no theorem below depends on the order.
\<close>

type_synonym registry = "(string \<times> tool_def) list"

definition cache_set :: "string \<Rightarrow> 'v \<Rightarrow> (string \<times> 'v) list \<Rightarrow> (string \<times> 'v) list" where
  "cache_set key v cache = AList.update key v cache"

definition cache_get :: "(string \<times> 'v) list \<Rightarrow> string \<Rightarrow> 'v option" where
  "cache_get cache key = map_of cache key"

definition cache_del :: "string \<Rightarrow> (string \<times> 'v) list \<Rightarrow> (string \<times> 'v) list" where
  "cache_del key cache = AList.delete key cache"

definition cache_keys :: "(string \<times> 'v) list \<Rightarrow> string list" where
  "cache_keys cache = map fst cache"

text \<open>The two module-level event handlers, the only writers of the registry.\<close>

definition mcp_tool_register :: "tool_def \<Rightarrow> registry \<Rightarrow> registry" where
  "mcp_tool_register toolDef toolRegistry = cache_set (name toolDef) toolDef toolRegistry"

definition mcp_tool_unregister :: "string \<Rightarrow> registry \<Rightarrow> registry" where
  "mcp_tool_unregister toolName toolRegistry = cache_del toolName toolRegistry"

datatype registry_event = Register tool_def | Unregister string

fun registry_step :: "registry \<Rightarrow> registry_event \<Rightarrow> registry" where
  "registry_step r (Register toolDef) = mcp_tool_register toolDef r"
| "registry_step r (Unregister toolName) = mcp_tool_unregister toolName r"

definition registry_after :: "registry_event list \<Rightarrow> registry" where
  "registry_after evs = foldl registry_step [] evs"

text \<open>
  A response: the HTTP status and the body that \<open>res.json\<close> writes. \<open>JSON.stringify\<close>
  leaves out a property whose value is \<open>undefined\<close> (as \<open>id\<close> is when the request
  carried none).
\<close>

datatype reply = Reply nat jsval

definition json_body :: "(string \<times> jsval) list \<Rightarrow> jsval" where
  "json_body kvs = JObj (filter (\<lambda>kv. snd kv \<noteq> JUndefined) kvs)"

definition rpc_error :: "jsval \<Rightarrow> int \<Rightarrow> string \<Rightarrow> jsval" where
  "rpc_error request code message =
     json_body [(''jsonrpc'', JStr ''2.0''), (''id'', js_get request ''id''),
                (''error'', JObj [(''code'', JNum code), (''message'', JStr message)])]"

definition rpc_result :: "jsval \<Rightarrow> jsval \<Rightarrow> jsval" where
  "rpc_result request result =
     json_body [(''jsonrpc'', JStr ''2.0''), (''id'', js_get request ''id''), (''result'', result)]"

text \<open>\<open>GET /health\<close>. \<open>uptime\<close> is what \<open>process.uptime()\<close> returns.\<close>

definition health :: "string \<Rightarrow> jsval \<Rightarrow> registry \<Rightarrow> reply" where
  "health serverName uptime toolRegistry =
     Reply 200 (json_body
       [(''status'', JStr ''healthy''),
        (''server'', JStr serverName),
        (''uptime'', uptime),
        (''tools'', JNum (int (length (index_keys (cache_keys toolRegistry)))))])"

definition tool_entry :: "tool_def \<Rightarrow> jsval" where
  "tool_entry tool =
     JObj [(''name'', JStr (name tool)), (''description'', JStr (description tool)),
           (''inputSchema'', inputSchema tool)]"

definition handleToolsList :: "registry \<Rightarrow> jsval \<Rightarrow> reply" where
  "handleToolsList toolRegistry request =
     Reply 200 (rpc_result request
       (JObj [(''tools'',
          JArr (List.map_filter (\<lambda>key. map_option tool_entry (cache_get toolRegistry key))
                  (cache_keys toolRegistry)))]))"

text \<open>
  \<open>toolRegistry.get(name)\<close> with a key taken from the request: \<open>node-cache\<close> accepts a
  string or a number (a number addresses the key of its decimal text) and throws for any
  other key.
\<close>

definition registry_lookup :: "registry \<Rightarrow> jsval \<Rightarrow> js_error + tool_def option" where
  "registry_lookup toolRegistry key =
     (case key of
        JStr k \<Rightarrow> Inr (cache_get toolRegistry k)
      | JNum n \<Rightarrow> Inr (cache_get toolRegistry (number_to_string n))
      | _ \<Rightarrow> Inl (JsError ''The key argument has to be of type `string` or `number`''))"

text \<open>
  A handler either has written its response, or has called \<open>executeToolFlow\<close> and
  responds when that settles (\<open>tool_call_reply\<close>).
\<close>

datatype handled =
    Responded reply
  | Awaiting tool_def jsval

definition handleToolCall :: "registry \<Rightarrow> jsval \<Rightarrow> js_error + handled" where
  "handleToolCall toolRegistry request =
     (let params = js_get request ''params'' in
      if nullish params then Inl (TypeError ''Cannot destructure property name of request.params'')
      else
        (case registry_lookup toolRegistry (js_get params ''name'') of
           Inl e \<Rightarrow> Inl e
         | Inr None \<Rightarrow>
             Inr (Responded (Reply 200 (rpc_error request (- 32602)
                    (''Tool not found: '' @ to_string (js_get params ''name'')))))
         | Inr (Some tool) \<Rightarrow> Inr (Awaiting tool (js_get params ''arguments''))))"

definition handleDirectToolCall :: "registry \<Rightarrow> jsval \<Rightarrow> js_error + handled" where
  "handleDirectToolCall toolRegistry request =
     (case registry_lookup toolRegistry (js_get request ''method'') of
        Inl e \<Rightarrow> Inl e
      | Inr None \<Rightarrow>
          Inr (Responded (Reply 200 (rpc_error request (- 32602)
                 (''Tool not found: '' @ to_string (js_get request ''method'')))))
      | Inr (Some tool) \<Rightarrow> Inr (Awaiting tool (js_or (js_get request ''params'') (JObj []))))"

definition handleInitialize :: "string \<Rightarrow> jsval \<Rightarrow> reply" where
  "handleInitialize serverName request =
     Reply 200 (rpc_result request
       (JObj [(''protocolVersion'', JStr ''2024-11-05''),
              (''capabilities'', JObj [(''tools'', JObj [(''listChanged'', JBool True)])]),
              (''serverInfo'', JObj [(''name'', JStr serverName), (''version'', JStr ''1.0.0''),
                                    (''description'', JStr ''Node-RED MCP Flow Server'')])]))"

definition endsWith :: "string \<Rightarrow> string \<Rightarrow> bool" where
  "endsWith s suffix =
     (length suffix \<le> length s \<and> drop (length s - length suffix) s = suffix)"

definition error_message :: "js_error \<Rightarrow> string" where
  "error_message e = (case e of TypeError m \<Rightarrow> m | JsError m \<Rightarrow> m)"

text \<open>The \<open>switch (request.method)\<close> inside the \<open>try\<close> of the \<open>POST /mcp\<close> handler.\<close>

definition mcp_dispatch :: "string \<Rightarrow> registry \<Rightarrow> jsval \<Rightarrow> js_error + handled" where
  "mcp_dispatch serverName toolRegistry request =
     (case get_prop request ''method'' of
        Inl e \<Rightarrow> Inl e
      | Inr method \<Rightarrow>
          if method = JStr ''tools/list'' then Inr (Responded (handleToolsList toolRegistry request))
          else if method = JStr ''tools/call'' then handleToolCall toolRegistry request
          else if method = JStr ''initialize'' then Inr (Responded (handleInitialize serverName request))
          else if \<not> truthy method then
            Inr (Responded (Reply 200 (rpc_error request (- 32601)
                   (''Method not found: '' @ to_string method))))
          else
            (case method of
               JStr m \<Rightarrow>
                 if endsWith m ''_tool'' then handleDirectToolCall toolRegistry request
                 else Inr (Responded (Reply 200 (rpc_error request (- 32601)
                        (''Method not found: '' @ to_string method))))
             | _ \<Rightarrow> Inl (TypeError ''request.method.endsWith is not a function'')))"

text \<open>
  The handler with its \<open>catch\<close>: an error thrown while dispatching is answered with status
  500 and the generic envelope. Reading \<open>req.body.id\<close> in the \<open>catch\<close> throws again when
  the body itself is nullish, and that error leaves the handler.
\<close>

definition mcp_post :: "string \<Rightarrow> registry \<Rightarrow> jsval \<Rightarrow> js_error + handled" where
  "mcp_post serverName toolRegistry body =
     (case mcp_dispatch serverName toolRegistry body of
        Inr h \<Rightarrow> Inr h
      | Inl error \<Rightarrow>
          (case get_prop body ''id'' of
             Inl e \<Rightarrow> Inl e
           | Inr ident \<Rightarrow>
               Inr (Responded (Reply 500 (json_body
                 [(''jsonrpc'', JStr ''2.0''), (''id'', ident),
                  (''error'', JObj [(''code'', JNum (- 32603)), (''message'', JStr ''Internal error''),
                                   (''data'', JStr (error_message error))])])))))"

section \<open>Execution bridge\<close>

text \<open>
  \<open>executeToolFlow\<close> returns a promise. Its state: the timeout handle (armed or not), the
  \<open>responseHandler\<close> listener on \<open>input\<close> (registered or not) and the promise's
  settlement. \<open>resolve\<close> and \<open>reject\<close> act on a promise only while it is unsettled.
\<close>

datatype settlement = Resolved jsval | Rejected string

record pending_execution =
  executionId :: string
  timeoutArmed :: bool
  listening :: bool
  settled :: "settlement option"

definition settle :: "settlement \<Rightarrow> pending_execution \<Rightarrow> pending_execution" where
  "settle outcome pe = (if settled pe = None then pe\<lparr>settled := Some outcome\<rparr> else pe)"


definition timeout_callback :: "pending_execution \<Rightarrow> pending_execution" where
  "timeout_callback pe = settle (Rejected ''Tool execution timeout'') (pe\<lparr>timeoutArmed := False\<rparr>)"

definition responseHandler :: "jsval \<Rightarrow> pending_execution \<Rightarrow> js_error + pending_execution" where
  "responseHandler msg pe =
     (case get_prop msg ''topic'' of
        Inl e \<Rightarrow> Inl e
      | Inr topic \<Rightarrow>
          if topic \<noteq> JStr ''mcp-tool-response'' then Inr pe
          else
            (case get_prop (js_get msg ''payload'') ''executionId'' of
               Inl e \<Rightarrow> Inl e
             | Inr eid \<Rightarrow>
                 if eid \<noteq> JStr (executionId pe) then Inr pe
                 else
                   Inr (settle
                     (if truthy (js_get (js_get msg ''payload'') ''error'')
                      then Rejected (to_string (js_get (js_get msg ''payload'') ''error''))
                      else Resolved (js_get (js_get msg ''payload'') ''result''))
                     (pe\<lparr>timeoutArmed := False, listening := False\<rparr>))))"

text \<open>
  What can happen to a pending execution: its timeout fires (only an armed timeout can)
  or the node receives an input message (the handler runs only while registered; an error
  it throws goes to the emitter and leaves the promise as it is).
\<close>

datatype exec_event = TimeoutFires | Input jsval

fun exec_step :: "pending_execution \<Rightarrow> exec_event \<Rightarrow> pending_execution" where
  "exec_step pe TimeoutFires = (if timeoutArmed pe then timeout_callback pe else pe)"
| "exec_step pe (Input msg) =
     (if listening pe then (case responseHandler msg pe of Inr pe' \<Rightarrow> pe' | Inl e \<Rightarrow> pe)
      else pe)"


text \<open>The response \<open>handleToolCall\<close> and \<open>handleDirectToolCall\<close> write once the
  execution has settled.\<close>

definition tool_call_reply :: "jsval \<Rightarrow> settlement \<Rightarrow> reply" where
  "tool_call_reply request outcome =
     (case outcome of
        Resolved result \<Rightarrow> Reply 200 (rpc_result request result)
      | Rejected message \<Rightarrow> Reply 200 (rpc_error request (- 32603) message))"


section \<open>Process supervisor (MCP server node)\<close>

text \<open>
  \<open>String.prototype.includes\<close> and \<open>split(/\s+/)\<close>. A string is a list of characters
  with codes below 256; the characters \<open>\s\<close> matches in that range are the space, TAB,
  LF, VT, FF, CR and the no-break space U+00A0.
\<close>

fun str_includes :: "string \<Rightarrow> string \<Rightarrow> bool" where
  "str_includes [] sub = (sub = [])"
| "str_includes (c # cs) sub = (take (length sub) (c # cs) = sub \<or> str_includes cs sub)"

definition is_space :: "char \<Rightarrow> bool" where
  "is_space c =
     (c \<in> set [CHR '' '', CHR 0x09, CHR 0x0A, CHR 0x0B, CHR 0x0C, CHR 0x0D, CHR 0xA0])"

function split_ws :: "string \<Rightarrow> string list" where
  "split_ws s =
     (if dropWhile (\<lambda>c. \<not> is_space c) s = [] then [s]
      else takeWhile (\<lambda>c. \<not> is_space c) s
             # split_ws (dropWhile is_space (dropWhile (\<lambda>c. \<not> is_space c) s)))"
  by pat_completeness auto
termination
proof (relation "measure length")
  show "wf (measure length)" by simp
next
  fix s :: string
  assume ne: "dropWhile (\<lambda>c. \<not> is_space c) s \<noteq> []"
  then have "is_space (hd (dropWhile (\<lambda>c. \<not> is_space c) s))"
    using hd_dropWhile [of "\<lambda>c. \<not> is_space c" s] by simp
  then have "length (dropWhile is_space (dropWhile (\<lambda>c. \<not> is_space c) s))
               < length (dropWhile (\<lambda>c. \<not> is_space c) s)"
    using ne by (cases "dropWhile (\<lambda>c. \<not> is_space c) s")
      (auto simp: le_imp_less_Suc length_dropWhile_le)
  also have "\<dots> \<le> length s" by (rule length_dropWhile_le)
  finally show "(dropWhile is_space (dropWhile (\<lambda>c. \<not> is_space c) s), s) \<in> measure length"
    by simp
qed

declare split_ws.simps [simp del]

text \<open>
  One \<open>spawn\<close> call: the command, its arguments and the environment handed to the child.
\<close>

record spawn_call =
  sp_command :: string
  sp_args :: "string list"
  sp_env :: "(string \<times> string) list"

text \<open>
  The node. Configuration values are those the constructor stores (after its defaults);
  \<open>processEnv\<close> is \<open>process.env\<close>. A process handle is the index of its \<open>spawn\<close> call in
  \<open>spawns\<close>. \<open>restartTimers\<close> counts the restart timeouts armed and not yet fired,
  \<open>killTimers\<close> the forced-termination timeouts, \<open>signals\<close> lists the signals sent with
  \<open>kill\<close>, \<open>sent\<close> the messages passed to \<open>node.send\<close>.

  \<open>serverCache.set\<close> stores a clone of the entry it is given, as \<open>node-cache\<close> does by
  default, and the entry holds the node object and the child process; cloning them can
  throw (the changelog records \<open>Cannot assign to read only property 'writeQueueSize'\<close> for
  the same kind of entry). \<open>cacheSetError\<close> is the message of the error the call throws,
  \<open>None\<close> when it returns. What the cache holds is read only by the admin endpoints and
  is not part of the model.
\<close>

record server_node =
  serverName :: string
  serverType :: string
  serverPath :: string
  serverArgs :: string
  serverPort :: nat
  healthCheck :: bool
  maxRestarts :: nat
  serverId :: string
  processEnv :: "(string \<times> string) list"
  cacheSetError :: "string option"
  serverProcess :: "nat option"
  isRunning :: bool
  restartCount :: nat
  healthCheckTimer :: bool
  statusText :: string
  spawns :: "spawn_call list"
  restartTimers :: nat
  killTimers :: nat
  signals :: "(nat \<times> string) list"
  sent :: "jsval list"

definition additionalArgs :: "server_node \<Rightarrow> string list" where
  "additionalArgs node =
     (if serverArgs node \<noteq> [] then filter (\<lambda>arg. length arg > 0) (split_ws (serverArgs node))
      else [])"

definition spawn_env :: "server_node \<Rightarrow> (string \<times> string) list" where
  "spawn_env node =
     AList.update ''NODE_RED_MCP_SERVER_ID'' (serverId node)
       (AList.update ''MCP_SERVER_NAME'' (serverName node)
         (AList.update ''MCP_SERVER_PORT'' (decimal_of_nat (serverPort node)) (processEnv node)))"

definition spawn_command :: "server_node \<Rightarrow> string \<times> string list" where
  "spawn_command node =
     (if serverType node = ''python'' then (''python3'', serverPath node # additionalArgs node)
      else if serverType node = ''node'' then (''node'', serverPath node # additionalArgs node)
      else (hd (split_ws (serverPath node)), tl (split_ws (serverPath node)) @ additionalArgs node))"

definition call_ok :: "bool \<Rightarrow> string \<Rightarrow> (string \<times> jsval) list \<Rightarrow> jsval" where
  "call_ok success message extra =
     JObj ([(''success'', JBool success), (''message'', JStr message)] @ extra)"

text \<open>
  \<open>node.startServer\<close>: the new node state and the arguments of the callback (\<open>Inl\<close> an
  error, \<open>Inr\<close> a result). \<open>spawn\<close> throws for an empty command (the text of that
  error is Node's and is abbreviated here). Once \<open>spawn\<close> has
  returned, the handle is stored and the handlers are attached; then \<open>serverCache.set\<close>
  runs, and when it throws the \<open>catch\<close> sets the status \<open>error\<close> and hands the error to
  the callback, with the process spawned and its handlers in place.
\<close>

definition startServer :: "server_node \<Rightarrow> server_node \<times> (string + jsval)" where
  "startServer node =
     (if isRunning node then (node, Inr (call_ok False ''Server already running'' []))
      else if serverType node = ''python'' \<and> serverPath node = [] then
        (node\<lparr>statusText := ''error: no path''\<rparr>,
         Inl ''Server path is required for Python MCP servers'')
      else if fst (spawn_command node) = [] then
        (node\<lparr>statusText := ''error''\<rparr>, Inl ''The argument file cannot be empty'')
      else
        (let node1 = node\<lparr>statusText := ''starting...'',
                          serverProcess := Some (length (spawns node)),
                          spawns := spawns node @
                            [\<lparr>sp_command = fst (spawn_command node),
                              sp_args = snd (spawn_command node),
                              sp_env = spawn_env node\<rparr>]\<rparr>
         in case cacheSetError node1 of
              None \<Rightarrow>
                (node1, Inr (call_ok True ''Server starting'' [(''serverId'', JStr (serverId node1))]))
            | Some message \<Rightarrow> (node1\<lparr>statusText := ''error''\<rparr>, Inl message)))"

definition startHealthCheck :: "server_node \<Rightarrow> server_node" where
  "startHealthCheck node = node\<lparr>healthCheckTimer := True\<rparr>"

definition stopHealthCheck :: "server_node \<Rightarrow> server_node" where
  "stopHealthCheck node = (if healthCheckTimer node then node\<lparr>healthCheckTimer := False\<rparr> else node)"

text \<open>
  \<open>node.onServerStarted\<close>. \<open>now\<close> is the clock's reading when it runs; the \<open>Date\<close> in
  the payload is represented by that time value.
\<close>

definition onServerStarted :: "nat \<Rightarrow> server_node \<Rightarrow> server_node" where
  "onServerStarted now node =
     (let node1 = node\<lparr>isRunning := True, restartCount := 0, statusText := ''running''\<rparr>;
          node2 = (if healthCheck node1 then startHealthCheck node1 else node1)
      in node2\<lparr>sent := sent node2 @
           [JObj [(''topic'', JStr ''started''),
                  (''payload'', JObj [(''serverId'', JStr (serverId node2)),
                                     (''serverName'', JStr (serverName node2)),
                                     (''port'', JNum (int (serverPort node2))),
                                     (''startTime'', JNum (int now))])]]\<rparr>)"

text \<open>The \<open>stdout\<close> handler; \<open>output\<close> is the trimmed chunk.\<close>

definition on_stdout :: "string \<Rightarrow> nat \<Rightarrow> server_node \<Rightarrow> server_node" where
  "on_stdout output now node =
     (let node1 = node\<lparr>sent := sent node @
            [JObj [(''topic'', JStr ''stdout''), (''payload'', JStr output),
                   (''serverId'', JStr (serverId node)), (''serverName'', JStr (serverName node))]]\<rparr>
      in if str_includes output ''Server started'' \<or> str_includes output ''listening''
            \<or> str_includes output ''FastMCP server''
         then onServerStarted now node1 else node1)"

definition on_stderr :: "string \<Rightarrow> server_node \<Rightarrow> server_node" where
  "on_stderr err node =
     node\<lparr>sent := sent node @
       [JObj [(''topic'', JStr ''stderr''), (''payload'', JStr err),
              (''serverId'', JStr (serverId node)), (''serverName'', JStr (serverName node))]]\<rparr>"

text \<open>The \<open>error\<close> handler of the process. It also hands the error to the callback of
  the \<open>startServer\<close> call that spawned the process.\<close>

definition on_process_error :: "server_node \<Rightarrow> server_node" where
  "on_process_error node = node\<lparr>statusText := ''start error'', isRunning := False\<rparr>"

definition exit_message :: "server_node \<Rightarrow> int option \<Rightarrow> string option \<Rightarrow> jsval" where
  "exit_message node code signal =
     JObj [(''topic'', JStr ''exit''),
           (''payload'', JObj [(''code'', (case code of None \<Rightarrow> JNull | Some c \<Rightarrow> JNum c)),
                              (''signal'', (case signal of None \<Rightarrow> JNull | Some sg \<Rightarrow> JStr sg))]),
           (''serverId'', JStr (serverId node)), (''serverName'', JStr (serverName node))]"

text \<open>The \<open>exit\<close> handler; \<open>code\<close> is \<open>null\<close> (\<open>None\<close>) when a signal ended the process.\<close>

definition on_exit :: "int option \<Rightarrow> string option \<Rightarrow> server_node \<Rightarrow> server_node" where
  "on_exit code signal node =
     (let node1 = node\<lparr>isRunning := False, serverProcess := None\<rparr>
      in if code \<noteq> Some 0 \<and> restartCount node1 < maxRestarts node1 then
           node1\<lparr>statusText := ''restarting...'',
                  restartCount := restartCount node1 + 1,
                  restartTimers := restartTimers node1 + 1\<rparr>
         else
           (let node2 = stopHealthCheck (node1\<lparr>statusText := ''stopped''\<rparr>)
            in node2\<lparr>sent := sent node2 @ [exit_message node2 code signal]\<rparr>))"

definition stopServer :: "server_node \<Rightarrow> server_node \<times> (string + jsval)" where
  "stopServer node =
     (case serverProcess node of
        None \<Rightarrow> (node\<lparr>statusText := ''stopped''\<rparr>, Inr (call_ok True ''Server already stopped'' []))
      | Some p \<Rightarrow>
          if \<not> isRunning node then
            (node\<lparr>statusText := ''stopped''\<rparr>, Inr (call_ok True ''Server already stopped'' []))
          else
            ((stopHealthCheck (node\<lparr>statusText := ''stopping...''\<rparr>))
               \<lparr>signals := signals node @ [(p, ''SIGTERM'')],
                killTimers := killTimers node + 1,
                isRunning := False\<rparr>,
             Inr (call_ok True ''Server stopping'' [])))"

definition on_kill_timer :: "server_node \<Rightarrow> server_node" where
  "on_kill_timer node =
     (case serverProcess node of
        None \<Rightarrow> node
      | Some p \<Rightarrow>
          if p \<in> fst ` set (signals node) then node
          else node\<lparr>signals := signals node @ [(p, ''SIGKILL'')]\<rparr>)"

text \<open>
  One run of the health-check interval callback: \<open>Some status\<close> when the server
  answered, \<open>None\<close> when the request failed. \<open>axios.get\<close> rejects a failed request and,
  by its default, every answer with a status outside 200 to 299. After an answer with
  status 200 the callback evaluates \<open>node.status().text\<close>; the call \<open>node.status()\<close>
  yields no object to read \<open>text\<close> from, so the \<open>try\<close> block throws and the \<open>catch\<close>
  runs as it does for a rejected request. An answer with another status from 201 to 299
  changes nothing.
\<close>

definition health_check_failed :: "server_node \<Rightarrow> server_node" where
  "health_check_failed node =
     (if isRunning node then node\<lparr>statusText := ''unhealthy''\<rparr> else node)"

definition on_health_probe :: "nat option \<Rightarrow> server_node \<Rightarrow> server_node" where
  "on_health_probe response node =
     (case response of
        Some code \<Rightarrow> (if 200 < code \<and> code < 300 then node else health_check_failed node)
      | None \<Rightarrow> health_check_failed node)"

text \<open>
  What can happen to the node: a call of \<open>node.startServer\<close> or \<open>node.stopServer\<close>
  (what the caller's callback does with the result is not part of the step), a chunk on
  \<open>stdout\<close> (trimmed, with the clock's reading) or on \<open>stderr\<close>, the \<open>error\<close> and \<open>exit\<close>
  events of a spawned process, a restart or forced-termination timeout firing, and a health
  probe completing.
\<close>

datatype server_event =
    StartServer
  | StopServer
  | StdoutData string nat
  | StderrData string
  | ProcessError
  | ProcessExit "int option" "string option"
  | RestartTimerFires
  | KillTimerFires
  | HealthProbe "nat option"

text \<open>A timeout fires only while it is armed.\<close>

fun server_step :: "server_node \<Rightarrow> server_event \<Rightarrow> server_node" where
  "server_step node StartServer = fst (startServer node)"
| "server_step node StopServer = fst (stopServer node)"
| "server_step node (StdoutData output now) = on_stdout output now node"
| "server_step node (StderrData err) = on_stderr err node"
| "server_step node ProcessError = on_process_error node"
| "server_step node (ProcessExit code signal) = on_exit code signal node"
| "server_step node RestartTimerFires =
     (if restartTimers node = 0 then node
      else fst (startServer (node\<lparr>restartTimers := restartTimers node - 1\<rparr>)))"
| "server_step node KillTimerFires =
     (if killTimers node = 0 then node
      else on_kill_timer (node\<lparr>killTimers := killTimers node - 1\<rparr>))"
| "server_step node (HealthProbe response) = on_health_probe response node"

definition server_run :: "server_node \<Rightarrow> server_event list \<Rightarrow> server_node" where
  "server_run node evs = foldl server_step node evs"

text \<open>The node as its constructor leaves it (\<open>config.maxRestarts || 3\<close> and so on are
  taken as already applied to the arguments).\<close>

definition MCPServerNode ::
  "string \<Rightarrow> string \<Rightarrow> string \<Rightarrow> string \<Rightarrow> nat \<Rightarrow> nat \<Rightarrow> string \<Rightarrow> (string \<times> string) list \<Rightarrow>
     string option \<Rightarrow> server_node" where
  "MCPServerNode sname stype spath sargs sport maxr uuid penv cache_error =
     \<lparr>serverName = sname, serverType = stype, serverPath = spath, serverArgs = sargs,
      serverPort = sport, healthCheck = True, maxRestarts = maxr, serverId = uuid,
      processEnv = penv, cacheSetError = cache_error,
      serverProcess = None, isRunning = False, restartCount = 0,
      healthCheckTimer = False, statusText = ''stopped'', spawns = [], restartTimers = 0,
      killTimers = 0, signals = [], sent = []\<rparr>"


section \<open>Transport client (MCP client node)\<close>

text \<open>
  A callback handed to \<open>connect\<close>, \<open>disconnect\<close> or \<open>sendRequest\<close> is opaque: the
  model records each invocation with its arguments. \<open>NoCallback\<close> is the default
  \<open>() => {}\<close> of \<open>connect\<close> and \<open>disconnect\<close> and the missing callback of
  \<open>sendRequest\<close>; \<open>HandshakeInit\<close> is the continuation \<open>fetchMCPHandshake\<close> passes
  with its \<open>initialize\<close> request (what it does when invoked, a further \<open>sendRequest\<close>
  among other things, enters the model as later events).
\<close>

datatype cb = NoCallback | Caller nat | HandshakeInit

datatype sock_kind = EventSourceSock | WebSocketSock

datatype ready_state = Connecting | Open | Closed

text \<open>A low-level connection object (\<open>EventSource\<close> or \<open>WebSocket\<close>): its handlers
  close over the callback of the \<open>connect\<close> call that created it.\<close>

record sock =
  kind :: sock_kind
  readyState :: ready_state
  onConnect :: cb

text \<open>What an armed \<open>setTimeout\<close> will run.\<close>

datatype timer_kind =
    ReconnectTimer
  | RequestTimeout string cb
  | HandshakeTimer

text \<open>An \<open>axios\<close> call in flight.\<close>

datatype http_call =
    HealthGet cb
  | HttpPost string cb
  | SsePost cb

datatype emitted =
    Sent jsval
  | Invoked cb "string option" jsval

record pending_request =
  callback :: cb
  timeout :: nat

text \<open>
  The node. \<open>urlAccepted\<close> tells whether the \<open>EventSource\<close>/\<open>WebSocket\<close> constructor
  accepts the URL built from \<open>serverUrl\<close> (it throws otherwise). Handles of connection
  objects, timeouts and HTTP calls are drawn from \<open>nextHandle\<close>; \<open>sockets\<close> holds every
  connection object created, \<open>timers\<close> the armed timeouts, \<open>calls\<close> the HTTP calls in
  flight, \<open>wire\<close> the frames written to a socket, \<open>outputs\<close> the messages sent and the
  callbacks invoked, in order. \<open>uuidCalls\<close> counts the calls of \<open>uuidv4\<close>.
\<close>

record client_node =
  serverUrl :: string
  connectionType :: string
  reconnect :: bool
  urlAccepted :: bool
  isConnected :: bool
  connection :: "nat option"
  reconnectTimer :: "nat option"
  pendingRequests :: "(string \<times> pending_request) list"
  sockets :: "(nat \<times> sock) list"
  timers :: "(nat \<times> timer_kind) list"
  calls :: "(nat \<times> http_call) list"
  nextHandle :: nat
  uuidCalls :: nat
  wire :: "(nat \<times> jsval) list"
  status :: string
  outputs :: "emitted list"

text \<open>The constructor: \<open>node.reconnect = config.reconnect || true\<close>.\<close>

definition MCPClientNode :: "string \<Rightarrow> string \<Rightarrow> bool \<Rightarrow> bool \<Rightarrow> client_node" where
  "MCPClientNode url ctype config_reconnect accepted =
     \<lparr>serverUrl = url, connectionType = ctype, reconnect = (config_reconnect \<or> True),
      urlAccepted = accepted, isConnected = False, connection = None, reconnectTimer = None,
      pendingRequests = [], sockets = [], timers = [], calls = [], nextHandle = 0,
      uuidCalls = 0, wire = [], status = ''disconnected'', outputs = []\<rparr>"

definition send :: "jsval \<Rightarrow> client_node \<Rightarrow> client_node" where
  "send msg node = node\<lparr>outputs := outputs node @ [Sent msg]\<rparr>"

definition invoke :: "cb \<Rightarrow> string option \<Rightarrow> jsval \<Rightarrow> client_node \<Rightarrow> client_node" where
  "invoke f err result node =
     (if f = NoCallback then node else node\<lparr>outputs := outputs node @ [Invoked f err result]\<rparr>)"

definition setTimeout :: "timer_kind \<Rightarrow> client_node \<Rightarrow> client_node" where
  "setTimeout k node =
     node\<lparr>timers := timers node @ [(nextHandle node, k)], nextHandle := Suc (nextHandle node)\<rparr>"

definition clearTimeout :: "nat \<Rightarrow> client_node \<Rightarrow> client_node" where
  "clearTimeout t node = node\<lparr>timers := AList.delete t (timers node)\<rparr>"

definition scheduleReconnect :: "client_node \<Rightarrow> client_node" where
  "scheduleReconnect node =
     (if reconnectTimer node \<noteq> None then node
      else (setTimeout ReconnectTimer node)\<lparr>reconnectTimer := Some (nextHandle node)\<rparr>)"

definition connectHTTP :: "cb \<Rightarrow> client_node \<Rightarrow> client_node" where
  "connectHTTP f node =
     node\<lparr>calls := calls node @ [(nextHandle node, HealthGet f)],
          nextHandle := Suc (nextHandle node)\<rparr>"

definition new_socket :: "sock_kind \<Rightarrow> cb \<Rightarrow> client_node \<Rightarrow> client_node" where
  "new_socket k f node =
     node\<lparr>connection := Some (nextHandle node),
          sockets := sockets node @
            [(nextHandle node, \<lparr>kind = k, readyState = Connecting, onConnect = f\<rparr>)],
          nextHandle := Suc (nextHandle node)\<rparr>"

definition connectSSE :: "cb \<Rightarrow> client_node \<Rightarrow> client_node" where
  "connectSSE f node =
     (if urlAccepted node then new_socket EventSourceSock f node
      else invoke f (Some ''Invalid URL'') JUndefined node)"

definition connectWebSocket :: "cb \<Rightarrow> client_node \<Rightarrow> client_node" where
  "connectWebSocket f node =
     (if urlAccepted node then new_socket WebSocketSock f node
      else invoke f (Some ''Invalid URL'') JUndefined node)"

definition connect :: "cb \<Rightarrow> client_node \<Rightarrow> client_node" where
  "connect f node =
     (if isConnected node then
        invoke f None (call_ok True ''Already connected'' []) node
      else if connectionType node = ''http'' then
        connectHTTP f (node\<lparr>status := ''connecting...''\<rparr>)
      else if connectionType node = ''sse'' then
        connectSSE f (node\<lparr>status := ''connecting...''\<rparr>)
      else if connectionType node = ''websocket'' then
        connectWebSocket f (node\<lparr>status := ''connecting...''\<rparr>)
      else
        invoke f (Some (''Unsupported connection type: '' @ connectionType node)) JUndefined
          (node\<lparr>status := ''connecting...''\<rparr>))"

text \<open>\<open>socket.close()\<close>.\<close>

definition close_socket :: "nat \<Rightarrow> client_node \<Rightarrow> client_node" where
  "close_socket c node =
     node\<lparr>sockets := map (\<lambda>(h, sk). if h = c then (h, sk\<lparr>readyState := Closed\<rparr>) else (h, sk))
                        (sockets node)\<rparr>"

text \<open>
  \<open>node.disconnect\<close>. Neither \<open>EventSource.close()\<close> nor
  \<open>WebSocket.close(1000, ...)\<close> throws, so the \<open>catch\<close> of the source is not reached.
\<close>

definition disconnect :: "cb \<Rightarrow> client_node \<Rightarrow> client_node" where
  "disconnect f node =
     (if \<not> isConnected node then
        invoke f None (call_ok True ''Already disconnected'' []) node
      else
        (let node1 = (case reconnectTimer node of
                        None \<Rightarrow> node
                      | Some t \<Rightarrow> (clearTimeout t node)\<lparr>reconnectTimer := None\<rparr>);
             node2 = (case connection node1 of
                        None \<Rightarrow> node1
                      | Some c \<Rightarrow>
                          (if connectionType node1 = ''sse'' \<or> connectionType node1 = ''websocket''
                           then close_socket c node1 else node1)\<lparr>connection := None\<rparr>);
             node3 = node2\<lparr>isConnected := False, status := ''disconnected''\<rparr>;
             node4 = fold (\<lambda>(ident, request). clearTimeout (timeout request))
                       (pendingRequests node3) node3;
             node5 = node4\<lparr>pendingRequests := []\<rparr>
         in invoke f None (call_ok True ''Disconnected'' []) node5))"

text \<open>
  \<open>node.sendRequest\<close>; \<open>uuidv4\<close> is the sequence of identifiers the generator yields.
  In the \<open>websocket\<close> branch, \<open>node.connection.send\<close> throws when there is no connection
  object and when the socket is still connecting; a closed socket drops the frame
  silently. The thrown error is caught and handed to the callback.
\<close>

definition sendRequest ::
  "(nat \<Rightarrow> string) \<Rightarrow> jsval \<Rightarrow> jsval \<Rightarrow> cb \<Rightarrow> client_node \<Rightarrow> client_node" where
  "sendRequest uuidv4 method params f node =
     (if \<not> isConnected node then invoke f (Some ''Not connected to MCP server'') JUndefined node
      else
        (let requestId = uuidv4 (uuidCalls node);
             request = JObj [(''jsonrpc'', JStr ''2.0''), (''id'', JStr requestId),
                             (''method'', method),
                             (''params'', (if params = JUndefined then JObj [] else params))];
             node1 = node\<lparr>uuidCalls := Suc (uuidCalls node)\<rparr>
         in if connectionType node1 = ''http'' then
              node1\<lparr>calls := calls node1 @ [(nextHandle node1, HttpPost requestId f)],
                     nextHandle := Suc (nextHandle node1)\<rparr>
            else if connectionType node1 = ''sse'' then
              node1\<lparr>calls := calls node1 @ [(nextHandle node1, SsePost f)],
                     nextHandle := Suc (nextHandle node1)\<rparr>
            else if connectionType node1 = ''websocket'' then
              (case connection node1 of
                 None \<Rightarrow> invoke f (Some ''Cannot read properties of null (reading send)'') JUndefined node1
               | Some c \<Rightarrow>
                   (case map_of (sockets node1) c of
                      None \<Rightarrow> invoke f (Some ''Cannot read properties of null (reading send)'') JUndefined node1
                    | Some sk \<Rightarrow>
                        if readyState sk = Connecting then
                          invoke f (Some ''WebSocket is not open: readyState 0 (CONNECTING)'') JUndefined node1
                        else
                          (let node2 = (if readyState sk = Open
                                        then node1\<lparr>wire := wire node1 @ [(c, request)]\<rparr> else node1);
                               node3 = setTimeout (RequestTimeout requestId f) node2
                           in node3\<lparr>pendingRequests :=
                                AList.update requestId \<lparr>callback = f, timeout = nextHandle node2\<rparr>
                                  (pendingRequests node3)\<rparr>)))
            else node1))"

text \<open>The timeout armed by the \<open>websocket\<close> branch of \<open>sendRequest\<close>.\<close>

definition request_timeout :: "string \<Rightarrow> cb \<Rightarrow> client_node \<Rightarrow> client_node" where
  "request_timeout requestId f node =
     send (JObj [(''topic'', JStr ''error''),
                 (''payload'', JObj [(''error'', JStr ''Request timeout''),
                                    (''requestId'', JStr requestId)])])
       (invoke f (Some ''Request timeout'') JUndefined
          (node\<lparr>pendingRequests := AList.delete requestId (pendingRequests node)\<rparr>))"

definition fetchMCPHandshake :: "(nat \<Rightarrow> string) \<Rightarrow> client_node \<Rightarrow> client_node" where
  "fetchMCPHandshake uuidv4 node =
     (if \<not> isConnected node then node
      else sendRequest uuidv4 (JStr ''initialize'')
             (JObj [(''protocolVersion'', JStr ''2024-11-05''),
                    (''capabilities'', JObj [(''tools'', JObj [])]),
                    (''clientInfo'', JObj [(''name'', JStr ''node-red-mcp-client''),
                                          (''version'', JStr ''1.1.0'')])])
             HandshakeInit node)"

text \<open>The timeout set by \<open>scheduleReconnect\<close>.\<close>

definition reconnect_timeout :: "client_node \<Rightarrow> client_node" where
  "reconnect_timeout node =
     (let node1 = node\<lparr>reconnectTimer := None\<rparr>
      in if \<not> isConnected node1 then connect NoCallback node1 else node1)"

text \<open>A timeout fires only while it is armed; firing disarms it.\<close>

definition timer_fires :: "(nat \<Rightarrow> string) \<Rightarrow> nat \<Rightarrow> client_node \<Rightarrow> client_node" where
  "timer_fires uuidv4 t node =
     (case map_of (timers node) t of
        None \<Rightarrow> node
      | Some k \<Rightarrow>
          (let node1 = node\<lparr>timers := AList.delete t (timers node)\<rparr>
           in case k of
                ReconnectTimer \<Rightarrow> reconnect_timeout node1
              | RequestTimeout requestId f \<Rightarrow> request_timeout requestId f node1
              | HandshakeTimer \<Rightarrow> fetchMCPHandshake uuidv4 node1))"

text \<open>The \<open>open\<close> handler (\<open>onopen\<close> of the event source).\<close>

definition on_open :: "nat \<Rightarrow> jsval \<Rightarrow> client_node \<Rightarrow> client_node" where
  "on_open c ev node =
     (case map_of (sockets node) c of
        None \<Rightarrow> node
      | Some sk \<Rightarrow>
          (let node1 = node\<lparr>sockets := AList.update c (sk\<lparr>readyState := Open\<rparr>) (sockets node),
                            isConnected := True,
                            status := (if kind sk = EventSourceSock then ''connected (SSE)''
                                       else ''connected (WS)'')\<rparr>;
               node2 = send (JObj [(''topic'', JStr ''connected''),
                         (''payload'', JObj ([(''serverUrl'', JStr (serverUrl node1)),
                            (''connectionType'', JStr (if kind sk = EventSourceSock then ''sse''
                                                      else ''websocket''))]
                            @ (if kind sk = EventSourceSock then [(''event'', ev)] else [])))]) node1;
               node3 = invoke (onConnect sk) None
                         (call_ok True (if kind sk = EventSourceSock then ''SSE connection established''
                                        else ''WebSocket connection established'') []) node2
           in setTimeout HandshakeTimer node3))"

text \<open>\<open>pendingRequests.has(id)\<close>: the keys are strings, so only a string can be one.\<close>

definition pending_entry :: "client_node \<Rightarrow> jsval \<Rightarrow> (string \<times> pending_request) option" where
  "pending_entry node ident =
     (case ident of
        JStr k \<Rightarrow> map_option (Pair k) (map_of (pendingRequests node) k)
      | _ \<Rightarrow> None)"

text \<open>
  The \<open>message\<close> handler: \<open>parsed\<close> is the result of \<open>JSON.parse\<close> (\<open>None\<close> when it
  throws), \<open>raw\<close> the text received. Reading \<open>id\<close> of a parsed \<open>null\<close> throws inside the
  same \<open>try\<close>.
\<close>

definition on_message :: "nat \<Rightarrow> jsval option \<Rightarrow> string \<Rightarrow> client_node \<Rightarrow> client_node" where
  "on_message c parsed raw node =
     (case map_of (sockets node) c of
        None \<Rightarrow> node
      | Some sk \<Rightarrow>
          (case parsed of
             None \<Rightarrow> send (JObj [(''topic'', JStr ''raw''), (''payload'', JStr raw)]) node
           | Some message \<Rightarrow>
               if nullish message then
                 send (JObj [(''topic'', JStr ''raw''), (''payload'', JStr raw)]) node
               else if \<not> truthy (js_get message ''id'') then
                 send (JObj [(''topic'', JStr ''message''), (''payload'', message)]) node
               else
                 (case pending_entry node (js_get message ''id'') of
                    None \<Rightarrow> send (JObj [(''topic'', JStr ''message''), (''payload'', message)]) node
                  | Some (k, request) \<Rightarrow>
                      send (JObj [(''topic'', JStr ''response''), (''payload'', message),
                                  (''requestId'', js_get message ''id'')])
                        ((clearTimeout (timeout request) node)
                           \<lparr>pendingRequests := AList.delete k (pendingRequests node)\<rparr>))))"

definition on_error :: "nat \<Rightarrow> client_node \<Rightarrow> client_node" where
  "on_error c node =
     (case map_of (sockets node) c of
        None \<Rightarrow> node
      | Some sk \<Rightarrow>
          (let node1 = node\<lparr>isConnected := False,
                            status := (if kind sk = EventSourceSock then ''SSE error'' else ''WS error'')\<rparr>
           in if reconnect node1 then scheduleReconnect node1 else node1))"

text \<open>The \<open>close\<close> handler, which only a WebSocket has.\<close>

definition on_close :: "nat \<Rightarrow> int \<Rightarrow> client_node \<Rightarrow> client_node" where
  "on_close c code node =
     (case map_of (sockets node) c of
        None \<Rightarrow> node
      | Some sk \<Rightarrow>
          if kind sk \<noteq> WebSocketSock then node
          else
            (let node1 = node\<lparr>sockets := AList.update c (sk\<lparr>readyState := Closed\<rparr>) (sockets node),
                              isConnected := False, status := ''disconnected''\<rparr>
             in if reconnect node1 \<and> code \<noteq> 1000 then scheduleReconnect node1 else node1))"

text \<open>An \<open>axios\<close> promise settles: \<open>Inr\<close> the response data, \<open>Inl\<close> the error message.\<close>

definition call_settled :: "nat \<Rightarrow> string + jsval \<Rightarrow> client_node \<Rightarrow> client_node" where
  "call_settled h outcome node =
     (case map_of (calls node) h of
        None \<Rightarrow> node
      | Some call \<Rightarrow>
          (let node1 = node\<lparr>calls := AList.delete h (calls node)\<rparr>
           in case call of
                HealthGet f \<Rightarrow>
                  (case outcome of
                     Inr data \<Rightarrow>
                       invoke f None (call_ok True ''HTTP connection established'' [])
                         (send (JObj [(''topic'', JStr ''connected''),
                                  (''payload'', JObj [(''serverUrl'', JStr (serverUrl node1)),
                                                     (''connectionType'', JStr ''http''),
                                                     (''serverInfo'', data)])])
                            (node1\<lparr>isConnected := True, status := ''connected (HTTP)''\<rparr>))
                   | Inl err \<Rightarrow>
                       (let node2 = invoke f (Some err) JUndefined
                                      (node1\<lparr>isConnected := False, status := ''connection failed''\<rparr>)
                        in if reconnect node2 then scheduleReconnect node2 else node2))
              | HttpPost requestId f \<Rightarrow>
                  (case outcome of
                     Inr data \<Rightarrow>
                       send (JObj [(''topic'', JStr ''response''), (''payload'', data),
                                   (''requestId'', JStr requestId)])
                         (invoke f None data node1)
                   | Inl err \<Rightarrow>
                       send (JObj [(''topic'', JStr ''error''),
                                   (''payload'', JObj [(''error'', JStr err),
                                                      (''requestId'', JStr requestId)])])
                         (invoke f (Some err) JUndefined node1))
              | SsePost f \<Rightarrow>
                  (case outcome of
                     Inr data \<Rightarrow> invoke f None data node1
                   | Inl err \<Rightarrow> invoke f (Some err) JUndefined node1)))"

datatype client_event =
    Connect cb
  | Disconnect cb
  | SendRequest jsval jsval cb
  | SockOpen nat jsval
  | SockMessage nat "jsval option" string
  | SockError nat
  | SockClose nat int
  | TimerFires nat
  | CallSettled nat "string + jsval"

fun client_step :: "(nat \<Rightarrow> string) \<Rightarrow> client_node \<Rightarrow> client_event \<Rightarrow> client_node" where
  "client_step uuidv4 node (Connect f) = connect f node"
| "client_step uuidv4 node (Disconnect f) = disconnect f node"
| "client_step uuidv4 node (SendRequest method params f) = sendRequest uuidv4 method params f node"
| "client_step uuidv4 node (SockOpen c ev) = on_open c ev node"
| "client_step uuidv4 node (SockMessage c parsed raw) = on_message c parsed raw node"
| "client_step uuidv4 node (SockError c) = on_error c node"
| "client_step uuidv4 node (SockClose c code) = on_close c code node"
| "client_step uuidv4 node (TimerFires t) = timer_fires uuidv4 t node"
| "client_step uuidv4 node (CallSettled h outcome) = call_settled h outcome node"

definition client_run :: "(nat \<Rightarrow> string) \<Rightarrow> client_node \<Rightarrow> client_event list \<Rightarrow> client_node" where
  "client_run uuidv4 node evs = foldl (client_step uuidv4) node evs"

section \<open>Vocabulary of the properties\<close>

text \<open>The schema and the request of the two worked examples.\<close>

definition schema_ab :: jsval where
  "schema_ab =
     JObj [(''type'', JStr ''object''),
           (''properties'',
              JObj [(''a'', JObj [(''type'', JStr ''string''), (''enum'', JArr [JStr ''x'', JStr ''y''])]),
                    (''b'', JObj [(''type'', JStr ''integer'')])])]"


text \<open>What holds of every registry the two event handlers can produce: keys are distinct
  and each tool is stored under its own name.\<close>

definition registry_ok :: "registry \<Rightarrow> bool" where
  "registry_ok r = (distinct (map fst r) \<and> (\<forall>k d. map_of r k = Some d \<longrightarrow> name d = k))"

text \<open>The array \<open>tools\<close> that \<open>handleToolsList\<close> builds.\<close>

definition listed_tools :: "registry \<Rightarrow> jsval list" where
  "listed_tools r =
     List.map_filter (\<lambda>key. map_option tool_entry (cache_get r key)) (cache_keys r)"

definition reply_body :: "reply \<Rightarrow> jsval" where
  "reply_body rp = (case rp of Reply st b \<Rightarrow> b)"

text \<open>
  An input message is correlated with the execution \<open>eid\<close> when it is a
  \<open>mcp-tool-response\<close> whose payload carries that \<open>executionId\<close>. The terminal events of
  a pending execution are its timeout and a correlated response; \<open>first_outcome\<close> is the
  settlement the first terminal event of a sequence asks for.
\<close>

definition correlated :: "string \<Rightarrow> jsval \<Rightarrow> bool" where
  "correlated eid msg =
     (\<not> nullish msg \<and> js_get msg ''topic'' = JStr ''mcp-tool-response''
      \<and> \<not> nullish (js_get msg ''payload'')
      \<and> js_get (js_get msg ''payload'') ''executionId'' = JStr eid)"

definition response_outcome :: "jsval \<Rightarrow> settlement" where
  "response_outcome msg =
     (if truthy (js_get (js_get msg ''payload'') ''error'')
      then Rejected (to_string (js_get (js_get msg ''payload'') ''error''))
      else Resolved (js_get (js_get msg ''payload'') ''result''))"

fun terminal :: "string \<Rightarrow> exec_event \<Rightarrow> bool" where
  "terminal eid TimeoutFires = True"
| "terminal eid (Input msg) = correlated eid msg"





definition echo_tool :: tool_def where
  "echo_tool = \<lparr>name = ''echo'', description = ''Tool: echo'', inputSchema = JObj [],
                registeredBy = ''n1'', registrationTime = 0\<rparr>"





text \<open>A Python server node with a restart budget of two, in a runtime where
  \<open>serverCache.set\<close> throws, and the same node where it returns.\<close>

definition py_node :: server_node where
  "py_node =
     MCPServerNode ''srv'' ''python'' ''server.py'' [] 8000 2 ''id-1'' []
       (Some ''Cannot assign to read only property writeQueueSize'')"

text \<open>Extra arguments separated by a no-break space and by two spaces.\<close>

definition nbsp_args :: string where
  "nbsp_args = ''-a'' @ [CHR 0xA0] @ ''-b  -c''"

definition py_node_cached :: server_node where
  "py_node_cached = MCPServerNode ''srv'' ''python'' ''server.py'' [] 8000 2 ''id-1'' [] None"

text \<open>
  Vocabulary for the MCP client: a generator of request identifiers, two configured
  nodes, and the part of the node state that ties armed timeouts to pending requests.
\<close>

definition uuid_seq :: "nat \<Rightarrow> string" where
  "uuid_seq n = replicate (Suc n) CHR ''u''"

definition ws_node :: client_node where
  "ws_node = MCPClientNode ''http://localhost:8000'' ''websocket'' False True"

definition sse_node :: client_node where
  "sse_node = MCPClientNode ''http://localhost:8000'' ''sse'' False True"

type_synonym core =
  "(nat \<times> timer_kind) list \<times> nat \<times> (string \<times> pending_request) list \<times> nat option \<times> nat"

definition core :: "client_node \<Rightarrow> core" where
  "core node =
     (timers node, nextHandle node, pendingRequests node, reconnectTimer node, uuidCalls node)"

fun core_inv :: "(nat \<Rightarrow> string) \<Rightarrow> core \<Rightarrow> bool" where
  "core_inv u (tm, nh, pr, rt, uc) =
     ((\<forall>h \<in> fst ` set tm. h < nh)
      \<and> distinct (map fst tm)
      \<and> (\<forall>t ident f. map_of tm t = Some (RequestTimeout ident f) \<longrightarrow>
            map_of pr ident = Some \<lparr>callback = f, timeout = t\<rparr>)
      \<and> (\<forall>ident r. map_of pr ident = Some r \<longrightarrow>
            map_of tm (timeout r) = Some (RequestTimeout ident (callback r)))
      \<and> (\<forall>t. map_of tm t = Some ReconnectTimer \<longrightarrow> rt = Some t)
      \<and> (\<forall>t. rt = Some t \<longrightarrow> map_of tm t = Some ReconnectTimer)
      \<and> (\<forall>ident. map_of pr ident \<noteq> None \<longrightarrow> ident \<in> u ` {..<uc}))"

definition client_inv :: "(nat \<Rightarrow> string) \<Rightarrow> client_node \<Rightarrow> bool" where
  "client_inv u node = core_inv u (core node)"

text \<open>What \<open>sendRequest\<close> does, branch by branch.\<close>

definition ws_ready :: "client_node \<Rightarrow> bool" where
  "ws_ready n =
     (isConnected n \<and> connectionType n = ''websocket''
      \<and> (\<exists>c sk. connection n = Some c \<and> map_of (sockets n) c = Some sk
            \<and> readyState sk \<noteq> Connecting))"

text \<open>The timers \<open>disconnect\<close> leaves armed.\<close>

definition after_disconnect :: "client_node \<Rightarrow> (nat \<times> timer_kind) list" where
  "after_disconnect n =
     fold (\<lambda>(ident, request). AList.delete (timeout request)) (pendingRequests n)
       (case reconnectTimer n of None \<Rightarrow> timers n | Some t \<Rightarrow> AList.delete t (timers n))"

definition response_output :: "jsval \<Rightarrow> string \<Rightarrow> emitted" where
  "response_output message k =
     Sent (JObj [(''topic'', JStr ''response''), (''payload'', message), (''requestId'', JStr k)])"

definition timeout_outputs :: "string \<Rightarrow> cb \<Rightarrow> emitted list" where
  "timeout_outputs k g =
     (if g = NoCallback then [] else [Invoked g (Some ''Request timeout'') JUndefined])
     @ [Sent (JObj [(''topic'', JStr ''error''),
                    (''payload'', JObj [(''error'', JStr ''Request timeout''),
                                       (''requestId'', JStr k)])])]"

definition disconnect_outputs :: "cb \<Rightarrow> emitted list" where
  "disconnect_outputs f =
     (if f = NoCallback then [] else [Invoked f None (call_ok True ''Disconnected'' [])])"

text \<open>What one step can do to the table of pending requests.\<close>

definition keeps :: "(nat \<Rightarrow> string) \<Rightarrow> client_node \<Rightarrow> client_node \<Rightarrow> bool" where
  "keeps u n n' =
     ((pendingRequests n' = pendingRequests n \<and> uuidCalls n \<le> uuidCalls n')
      \<or> (\<exists>e. pendingRequests n' = AList.update (u (uuidCalls n)) e (pendingRequests n)
             \<and> uuidCalls n' = Suc (uuidCalls n)))"

definition by_response :: "client_node \<Rightarrow> client_event \<Rightarrow> client_node \<Rightarrow> string \<Rightarrow> bool" where
  "by_response n ev n' k =
     (\<exists>c message raw r. ev = SockMessage c (Some message) raw \<and> js_get message ''id'' = JStr k
        \<and> map_of (pendingRequests n) k = Some r
        \<and> pendingRequests n' = AList.delete k (pendingRequests n)
        \<and> timers n' = AList.delete (timeout r) (timers n)
        \<and> uuidCalls n' = uuidCalls n
        \<and> outputs n' = outputs n @ [response_output message k])"

definition by_timeout :: "client_node \<Rightarrow> client_event \<Rightarrow> client_node \<Rightarrow> string \<Rightarrow> bool" where
  "by_timeout n ev n' k =
     (\<exists>t g. ev = TimerFires t \<and> map_of (timers n) t = Some (RequestTimeout k g)
        \<and> pendingRequests n' = AList.delete k (pendingRequests n)
        \<and> timers n' = AList.delete t (timers n)
        \<and> uuidCalls n' = uuidCalls n
        \<and> outputs n' = outputs n @ timeout_outputs k g)"

definition by_disconnect :: "client_node \<Rightarrow> client_event \<Rightarrow> client_node \<Rightarrow> bool" where
  "by_disconnect n ev n' =
     (\<exists>f. ev = Disconnect f \<and> isConnected n
        \<and> pendingRequests n' = []
        \<and> timers n' = after_disconnect n
        \<and> uuidCalls n' = uuidCalls n
        \<and> outputs n' = outputs n @ disconnect_outputs f)"

definition ws_connected :: client_node where
  "ws_connected = client_run uuid_seq ws_node [Connect NoCallback, SockOpen 0 JNull]"

definition ws_one_pending :: client_node where
  "ws_one_pending =
     client_run uuid_seq ws_node
       [Connect NoCallback, SockOpen 0 JNull, SendRequest (JStr ''a'') (JObj []) (Caller 1)]"

definition ws_three_pending :: client_node where
  "ws_three_pending =
     client_run uuid_seq ws_node
       [Connect NoCallback, SockOpen 0 JNull,
        SendRequest (JStr ''a'') (JObj []) (Caller 1),
        SendRequest (JStr ''b'') (JObj []) (Caller 2),
        SendRequest (JStr ''c'') (JObj []) (Caller 3)]"

definition reply_u :: jsval where
  "reply_u = JObj [(''jsonrpc'', JStr ''2.0''), (''id'', JStr ''u''), (''result'', JNum 1)]"

section \<open>Example parameters\<close>

lemma index0_truthy: "truthy v \<Longrightarrow> \<exists>x. index0 v = Inr x"
  by (cases v rule: index0.cases) simp_all

lemma example_value_total: "\<not> nullish d \<Longrightarrow> \<exists>v. example_value d = Inr v"
  using index0_truthy [of "js_get d ''enum''"]
  by (auto simp: example_value_def get_prop_def)

lemma example_loop_total:
  "\<forall>(k, d) \<in> set es. \<not> nullish d \<Longrightarrow> \<exists>ex. example_loop es acc = Inr ex"
proof (induction es arbitrary: acc)
  case Nil
  then show ?case by simp
next
  case (Cons p es)
  obtain k d where p: "p = (k, d)" by (cases p)
  with Cons.prems have "\<not> nullish d" by simp
  then obtain v where v: "example_value d = Inr v"
    using example_value_total by blast
  from Cons.prems have "\<forall>(k, d) \<in> set es. \<not> nullish d" by simp
  from Cons.IH [OF this] show ?case using p v by simp
qed

lemma map_of_assign_property:
  "map_of (assign_property k' v acc) k =
     (if k' = ''__proto__'' then map_of acc k else ((map_of acc)(k' \<mapsto> v)) k)"
  by (simp add: assign_property_def update_conv')

text \<open>The loop leaves under each key other than \<open>__proto__\<close> the value of the last
  definition listed for it, and never touches the key \<open>__proto__\<close>.\<close>

lemma example_loop_map_of:
  "example_loop es acc = Inr ex \<Longrightarrow>
   map_of ex k =
     (if k = ''__proto__'' then map_of acc k
      else (case map_of (rev es) k of
              None \<Rightarrow> map_of acc k
            | Some d \<Rightarrow> (case example_value d of Inr v \<Rightarrow> Some v | Inl e \<Rightarrow> None)))"
proof (induction es arbitrary: acc)
  case Nil
  then show ?case by simp
next
  case (Cons p es)
  obtain k' d where p: "p = (k', d)" by (cases p)
  from Cons.prems p obtain v where v: "example_value d = Inr v"
    and rest: "example_loop es (assign_property k' v acc) = Inr ex"
    by (auto split: sum.splits)
  from Cons.IH [OF rest] show ?case using p v
    by (auto simp: map_of_assign_property map_add_def split: option.splits)
qed

lemma map_of_rev_distinct:
  "distinct (map fst es) \<Longrightarrow> (k, d) \<in> set es \<Longrightarrow> map_of (rev es) k = Some d"
  by (rule map_of_is_SomeI) (simp_all add: rev_map [symmetric])

lemma example_loop_lookup:
  assumes "example_loop es [] = Inr ex" "distinct (map fst es)" "(k, d) \<in> set es"
    and "\<not> nullish d" and "k \<noteq> ''__proto__''"
  shows "\<exists>v. example_value d = Inr v \<and> map_of ex k = Some v"
proof -
  have "map_of (rev es) k = Some d" using assms(2,3) by (rule map_of_rev_distinct)
  moreover obtain v where "example_value d = Inr v"
    using example_value_total [OF assms(4)] by blast
  ultimately show ?thesis
    using example_loop_map_of [OF assms(1), of k] assms(5) by simp
qed

text \<open>
  Claim C7, as amended. For a schema whose \<open>properties\<close> is truthy, with pairwise distinct
  property names and no \<open>null\<close> property definition, \<open>generateExampleParams\<close> returns an
  object that holds, for each property whose name is not \<open>__proto__\<close>, a value chosen by
  the property's \<open>type\<close> (and holds no property named \<open>__proto__\<close>): for
  \<open>"string"\<close> with a truthy \<open>enum\<close> the element \<open>enum[0]\<close> (the first enum value of an
  enum array), for \<open>"string"\<close> otherwise the description when truthy and else
  \<open>"example_string"\<close>; for \<open>"number"\<close> and \<open>"integer"\<close> the number 123; for
  \<open>"boolean"\<close> \<open>true\<close>; for \<open>"object"\<close> \<open>{}\<close>; for \<open>"array"\<close> \<open>[]\<close>; for any other
  type the description when truthy and else \<open>"example_value"\<close>. The schema
  \<open>{type:"object", properties:{a:{type:"string", enum:["x","y"]}, b:{type:"integer"}}}\<close>
  yields exactly \<open>{a:"x", b:123}\<close>.
\<close>

theorem generateExampleParams_by_type:
  assumes "truthy schema" and "truthy (js_get schema ''properties'')"
    and "object_entries (js_get schema ''properties'') = Inr entries"
    and "distinct (map fst entries)"
    and "\<forall>(k, d) \<in> set entries. \<not> nullish d"
    and "(propName, propDef) \<in> set entries"
    and "propName \<noteq> ''__proto__''"
  shows "(\<exists>example v.
      generateExampleParams schema = Inr (JObj example) \<and>
      map_of example ''__proto__'' = None \<and>
      map_of example propName = Some v \<and>
      (js_get propDef ''type'' = JStr ''string'' \<and> truthy (js_get propDef ''enum'') \<longrightarrow>
         index0 (js_get propDef ''enum'') = Inr v) \<and>
      (\<forall>e es. js_get propDef ''type'' = JStr ''string'' \<and> js_get propDef ''enum'' = JArr (e # es) \<longrightarrow>
         v = e) \<and>
      (js_get propDef ''type'' = JStr ''string'' \<and> \<not> truthy (js_get propDef ''enum'') \<longrightarrow>
         v = js_or (js_get propDef ''description'') (JStr ''example_string'')) \<and>
      (js_get propDef ''type'' = JStr ''number'' \<or> js_get propDef ''type'' = JStr ''integer'' \<longrightarrow>
         v = JNum 123) \<and>
      (js_get propDef ''type'' = JStr ''boolean'' \<longrightarrow> v = JBool True) \<and>
      (js_get propDef ''type'' = JStr ''object'' \<longrightarrow> v = JObj []) \<and>
      (js_get propDef ''type'' = JStr ''array'' \<longrightarrow> v = JArr []) \<and>
      (js_get propDef ''type'' \<notin> JStr ` {''string'', ''number'', ''integer'', ''boolean'', ''object'', ''array''} \<longrightarrow>
         v = js_or (js_get propDef ''description'') (JStr ''example_value'')))
    \<and> generateExampleParams schema_ab = Inr (JObj [(''a'', JStr ''x''), (''b'', JNum 123)])"
    (is "(\<exists>example v. ?P example v) \<and> ?E")
proof
  obtain ex where ex: "example_loop entries [] = Inr ex"
    using example_loop_total [OF assms(5)] by blast
  have gen: "generateExampleParams schema = Inr (JObj ex)"
    using assms(1-3) ex by (simp add: generateExampleParams_def)
  have nn: "\<not> nullish propDef" using assms(5,6) by auto
  from example_loop_lookup [OF ex assms(4) assms(6) nn assms(7)]
  obtain v where v: "map_of ex propName = Some v" and ev: "example_value propDef = Inr v"
    by auto
  have np: "map_of ex ''__proto__'' = None"
    using example_loop_map_of [OF ex, of "''__proto__''"] by simp
  have tab: "(if js_get propDef ''type'' = JStr ''string'' then
            (if truthy (js_get propDef ''enum'') then index0 (js_get propDef ''enum'')
             else Inr (js_or (js_get propDef ''description'') (JStr ''example_string'')))
          else if js_get propDef ''type'' = JStr ''number'' \<or> js_get propDef ''type'' = JStr ''integer'' then Inr (JNum 123)
          else if js_get propDef ''type'' = JStr ''boolean'' then Inr (JBool True)
          else if js_get propDef ''type'' = JStr ''object'' then Inr (JObj [])
          else if js_get propDef ''type'' = JStr ''array'' then Inr (JArr [])
          else Inr (js_or (js_get propDef ''description'') (JStr ''example_value''))) = Inr v"
    using ev nn by (simp add: example_value_def get_prop_def)
  show "\<exists>example v. ?P example v"
  proof (intro exI)
    show "?P ex v" using gen v np tab by (auto split: if_splits)
  qed
  show ?E by code_simp
qed

theorem generateExampleParams_by_type_witness:
  "\<exists>example. generateExampleParams schema_ab = Inr (JObj example) \<and>
     map_of example ''a'' = Some (JStr ''x'')"
proof -
  have e: "object_entries (js_get schema_ab ''properties'') =
      Inr [(''a'', JObj [(''type'', JStr ''string''), (''enum'', JArr [JStr ''x'', JStr ''y''])]),
           (''b'', JObj [(''type'', JStr ''integer'')])]"
    by (simp add: schema_ab_def)
  have t: "truthy schema_ab" "truthy (js_get schema_ab ''properties'')"
    by (simp_all add: schema_ab_def)
  from generateExampleParams_by_type [OF t e, of "''a''"
      "JObj [(''type'', JStr ''string''), (''enum'', JArr [JStr ''x'', JStr ''y''])]"]
  show ?thesis by auto
qed

text \<open>A property of a type outside the six, with a description, gets the description:
  not a fixed placeholder. A property named \<open>__proto__\<close> gets no value at all.\<close>

theorem generateExampleParams_other_type_counterexample:
  "generateExampleParams
     (JObj [(''type'', JStr ''object''),
            (''properties'',
               JObj [(''c'', JObj [(''type'', JStr ''null''), (''description'', JStr ''d'')])])])
   = Inr (JObj [(''c'', JStr ''d'')])
   \<and> generateExampleParams
     (JObj [(''type'', JStr ''object''),
            (''properties'',
               JObj [(''__proto__'', JObj [(''type'', JStr ''integer'')]),
                     (''b'', JObj [(''type'', JStr ''integer'')])])])
   = Inr (JObj [(''b'', JNum 123)])"
  by code_simp

section \<open>Tool registry and JSON-RPC dispatch\<close>

lemma map_of_register:
  "map_of (mcp_tool_register d r) k = (if k = name d then Some d else map_of r k)"
  by (simp add: mcp_tool_register_def cache_set_def update_conv')

lemma map_of_unregister:
  "map_of (mcp_tool_unregister n r) k = (if k = n then None else map_of r k)"
  by (simp add: mcp_tool_unregister_def cache_del_def delete_conv')

lemma registry_step_distinct:
  "distinct (map fst r) \<Longrightarrow> distinct (map fst (registry_step r ev))"
  by (cases ev) (simp_all add: mcp_tool_register_def mcp_tool_unregister_def cache_set_def
      cache_del_def distinct_update distinct_delete)

lemma registry_ok_step: "registry_ok r \<Longrightarrow> registry_ok (registry_step r ev)"
  unfolding registry_ok_def using registry_step_distinct [of r ev]
  by (cases ev) (auto simp: map_of_register map_of_unregister split: if_splits)

lemma registry_ok_foldl: "registry_ok r \<Longrightarrow> registry_ok (foldl registry_step r evs)"
  by (induction evs arbitrary: r) (auto simp: registry_ok_step)

lemma registry_ok_after: "registry_ok (registry_after evs)"
  unfolding registry_after_def by (rule registry_ok_foldl) (simp add: registry_ok_def)

text \<open>A name that is absent stays absent until it is registered again.\<close>

lemma absent_foldl:
  "map_of r T = None \<Longrightarrow> \<forall>d. Register d \<in> set evs \<longrightarrow> name d \<noteq> T \<Longrightarrow>
   map_of (foldl registry_step r evs) T = None"
proof (induction evs arbitrary: r)
  case Nil
  then show ?case by simp
next
  case (Cons ev evs)
  have "map_of (registry_step r ev) T = None"
    using Cons.prems by (cases ev) (auto simp: map_of_register map_of_unregister)
  then show ?case using Cons by simp
qed

lemma absent_after_unregister:
  assumes "\<forall>d. Register d \<in> set later \<longrightarrow> name d \<noteq> T"
  shows "map_of (registry_after (evs @ Unregister T # later)) T = None"
proof -
  have "map_of (registry_step (foldl registry_step [] evs) (Unregister T)) T = None"
    by (simp add: map_of_unregister)
  then show ?thesis using assms by (simp add: registry_after_def absent_foldl)
qed

lemma listed_tools_names:
  assumes "registry_ok r" "t \<in> set (listed_tools r)"
  shows "\<exists>k. js_get t ''name'' = JStr k \<and> map_of r k \<noteq> None"
proof -
  from assms(2) obtain key d
    where "key \<in> set (cache_keys r)" "cache_get r key = Some d" "t = tool_entry d"
    by (auto simp: listed_tools_def map_filter_def)
  moreover have "name d = key"
    using assms(1) calculation(2) by (simp add: registry_ok_def cache_get_def)
  ultimately show ?thesis by (auto simp: tool_entry_def cache_get_def)
qed

lemma tools_list_dispatch:
  assumes "js_get request ''method'' = JStr ''tools/list''"
  shows "mcp_post sname r request =
           Inr (Responded (Reply 200 (rpc_result request (JObj [(''tools'', JArr (listed_tools r))]))))"
proof -
  have nn: "\<not> nullish request" using assms by (cases request) simp_all
  have "mcp_dispatch sname r request = Inr (Responded (handleToolsList r request))"
    unfolding mcp_dispatch_def get_prop_def using nn assms by simp
  then show ?thesis by (simp add: mcp_post_def handleToolsList_def listed_tools_def)
qed

lemma tool_call_unknown:
  assumes "js_get request ''method'' = JStr ''tools/call''"
    and "js_get (js_get request ''params'') ''name'' = JStr T"
    and "map_of r T = None"
  shows "mcp_post sname r request =
           Inr (Responded (Reply 200 (json_body
             [(''jsonrpc'', JStr ''2.0''), (''id'', js_get request ''id''),
              (''error'', JObj [(''code'', JNum (- 32602)),
                               (''message'', JStr (''Tool not found: '' @ T))])])))"
proof -
  have nn: "\<not> nullish request" using assms(1) by (cases request) simp_all
  have np: "\<not> nullish (js_get request ''params'')"
    using assms(2) by (cases "js_get request ''params''") simp_all
  have look: "registry_lookup r (JStr T) = Inr None"
    using assms(3) by (simp add: registry_lookup_def cache_get_def)
  have call: "handleToolCall r request =
      Inr (Responded (Reply 200 (rpc_error request (- 32602) (''Tool not found: '' @ T))))"
    unfolding handleToolCall_def Let_def using np look assms(2) by simp
  have disp: "mcp_dispatch sname r request = handleToolCall r request"
    unfolding mcp_dispatch_def get_prop_def using nn assms(1) by simp
  show ?thesis unfolding mcp_post_def disp call by (simp add: rpc_error_def)
qed

text \<open>
  Claim C4. Let the tool name \<open>T\<close> be unregistered (after any history of register and
  unregister events, in particular one that registered \<open>T\<close>) and not registered again
  since. Then the response to \<open>tools/list\<close> carries a \<open>tools\<close> array none of whose
  entries is named \<open>T\<close>, and the response to \<open>tools/call\<close> with \<open>params.name = T\<close> is
  the JSON-RPC error envelope with code -32602 and the message \<open>Tool not found: T\<close>.
\<close>

theorem unregistered_tool_is_gone:
  assumes "\<forall>d. Register d \<in> set later \<longrightarrow> name d \<noteq> T"
    and "js_get listRequest ''method'' = JStr ''tools/list''"
    and "js_get callRequest ''method'' = JStr ''tools/call''"
    and "js_get (js_get callRequest ''params'') ''name'' = JStr T"
  shows "(\<exists>tools.
            mcp_post sname (registry_after (evs @ Unregister T # later)) listRequest =
              Inr (Responded (Reply 200 (json_body
                [(''jsonrpc'', JStr ''2.0''), (''id'', js_get listRequest ''id''),
                 (''result'', JObj [(''tools'', JArr tools)])])))
            \<and> (\<forall>t \<in> set tools. js_get t ''name'' \<noteq> JStr T))
       \<and> mcp_post sname (registry_after (evs @ Unregister T # later)) callRequest =
           Inr (Responded (Reply 200 (json_body
             [(''jsonrpc'', JStr ''2.0''), (''id'', js_get callRequest ''id''),
              (''error'', JObj [(''code'', JNum (- 32602)),
                               (''message'', JStr (''Tool not found: '' @ T))])])))"
proof
  let ?r = "registry_after (evs @ Unregister T # later)"
  have gone: "map_of ?r T = None" using assms(1) by (rule absent_after_unregister)
  have ok: "registry_ok ?r" by (rule registry_ok_after)
  have names: "\<forall>t \<in> set (listed_tools ?r). js_get t ''name'' \<noteq> JStr T"
    using listed_tools_names [OF ok] gone by fastforce
  have "mcp_post sname ?r listRequest =
      Inr (Responded (Reply 200 (json_body
        [(''jsonrpc'', JStr ''2.0''), (''id'', js_get listRequest ''id''),
         (''result'', JObj [(''tools'', JArr (listed_tools ?r))])])))"
    using tools_list_dispatch [OF assms(2)] by (simp add: rpc_result_def)
  with names show "\<exists>tools.
            mcp_post sname ?r listRequest =
              Inr (Responded (Reply 200 (json_body
                [(''jsonrpc'', JStr ''2.0''), (''id'', js_get listRequest ''id''),
                 (''result'', JObj [(''tools'', JArr tools)])])))
            \<and> (\<forall>t \<in> set tools. js_get t ''name'' \<noteq> JStr T)"
    by blast
  show "mcp_post sname ?r callRequest =
           Inr (Responded (Reply 200 (json_body
             [(''jsonrpc'', JStr ''2.0''), (''id'', js_get callRequest ''id''),
              (''error'', JObj [(''code'', JNum (- 32602)),
                               (''message'', JStr (''Tool not found: '' @ T))])])))"
    using assms(3,4) gone by (rule tool_call_unknown)
qed

theorem unregistered_tool_is_gone_witness:
  "mcp_post ''srv''
     (registry_after
        [Register \<lparr>name = ''echo'', description = ''Tool: echo'', inputSchema = JObj [],
                   registeredBy = ''n1'', registrationTime = 0\<rparr>,
         Unregister ''echo''])
     (JObj [(''jsonrpc'', JStr ''2.0''), (''id'', JNum 1), (''method'', JStr ''tools/call''),
            (''params'', JObj [(''name'', JStr ''echo''), (''arguments'', JObj [])])])
   = Inr (Responded (Reply 200 (JObj
       [(''jsonrpc'', JStr ''2.0''), (''id'', JNum 1),
        (''error'', JObj [(''code'', JNum (- 32602)),
                         (''message'', JStr ''Tool not found: echo'')])])))"
  using unregistered_tool_is_gone [of "[]" "''echo''"
      "JObj [(''id'', JNum 0), (''method'', JStr ''tools/list'')]"
      "JObj [(''jsonrpc'', JStr ''2.0''), (''id'', JNum 1), (''method'', JStr ''tools/call''),
            (''params'', JObj [(''name'', JStr ''echo''), (''arguments'', JObj [])])]"
      "''srv''"
      "[Register \<lparr>name = ''echo'', description = ''Tool: echo'', inputSchema = JObj [],
                   registeredBy = ''n1'', registrationTime = 0\<rparr>]"]
  by (simp add: json_body_def)







section \<open>Health endpoint\<close>

lemma length_index_keys: "length (index_keys xs) = length xs"
  by (simp add: index_keys_def)

lemma registry_size:
  assumes "registry_ok r"
  shows "length (cache_keys r) = card (dom (cache_get r))"
proof -
  have "cache_get r = map_of r" by (rule ext) (simp add: cache_get_def)
  then have "dom (cache_get r) = set (map fst r)"
    by (simp add: dom_map_of_conv_image_fst)
  moreover have "distinct (map fst r)" using assms by (simp add: registry_ok_def)
  then have "card (set (map fst r)) = length (map fst r)" by (rule distinct_card)
  ultimately show ?thesis by (simp add: cache_keys_def)
qed

lemma length_listed_tools: "length (listed_tools r) = length r"
proof -
  have k: "\<forall>key \<in> set (map fst r). map_of r key \<noteq> None"
    by (auto simp: map_of_eq_None_iff)
  have "\<forall>key \<in> set ks. map_of r key \<noteq> None \<Longrightarrow>
     length (List.map_filter (\<lambda>key. map_option tool_entry (map_of r key)) ks) = length ks" for ks
    by (induction ks) (auto simp: map_filter_simps)
  from this [OF k] have "length (List.map_filter (\<lambda>key. map_option tool_entry (map_of r key)) (map fst r)) = length r"
    by simp
  moreover have "cache_get r = map_of r" by (rule ext) (simp add: cache_get_def)
  ultimately show ?thesis by (simp add: listed_tools_def cache_keys_def)
qed

text \<open>
  Claim C6, as amended. Every \<open>GET /health\<close> is answered with the JSON object
  \<open>{status:"healthy", server:<configured server name>, uptime, tools}\<close>, where \<open>tools\<close>
  is the current number of tools in the registry (the number of names registered, which
  is also the number of entries \<open>tools/list\<close> returns).
\<close>

theorem health_reply:
  "health sname (JNum u) (registry_after evs) =
     Reply 200 (JObj [(''status'', JStr ''healthy''), (''server'', JStr sname), (''uptime'', JNum u),
                      (''tools'', JNum (int (card (dom (cache_get (registry_after evs))))))])
   \<and> card (dom (cache_get (registry_after evs))) = length (listed_tools (registry_after evs))"
proof -
  let ?r = "registry_after evs"
  have ok: "registry_ok ?r" by (rule registry_ok_after)
  have n: "length (index_keys (cache_keys ?r)) = card (dom (cache_get ?r))"
    using registry_size [OF ok] by (simp add: length_index_keys)
  have h: "health sname (JNum u) ?r =
     Reply 200 (JObj [(''status'', JStr ''healthy''), (''server'', JStr sname), (''uptime'', JNum u),
                      (''tools'', JNum (int (card (dom (cache_get ?r)))))])"
    unfolding health_def n by (simp add: json_body_def)
  have l: "card (dom (cache_get ?r)) = length (listed_tools ?r)"
    using registry_size [OF ok] by (simp add: length_listed_tools cache_keys_def)
  show ?thesis using h l by simp
qed

theorem health_reply_witness:
  "health ''srv'' (JNum 5) (registry_after [Register echo_tool]) =
     Reply 200 (JObj [(''status'', JStr ''healthy''), (''server'', JStr ''srv''), (''uptime'', JNum 5),
                      (''tools'', JNum 1)])"
proof -
  have "listed_tools (registry_after [Register echo_tool]) = [tool_entry echo_tool]"
    by (simp add: listed_tools_def registry_after_def mcp_tool_register_def cache_set_def
        cache_keys_def cache_get_def map_filter_simps)
  then show ?thesis
    using health_reply [of "''srv''" 5 "[Register echo_tool]"] by simp
qed

text \<open>The object has no \<open>toolCount\<close> property.\<close>

theorem health_toolCount_counterexample:
  "js_get (reply_body (health ''srv'' (JNum 5) [])) ''toolCount'' = JUndefined
   \<and> js_get (reply_body (health ''srv'' (JNum 5) [])) ''tools'' = JNum 0"
  by (simp add: health_def json_body_def reply_body_def index_keys_def cache_keys_def)

section \<open>Execution bridge: single settlement\<close>

lemma responseHandler_uncorrelated:
  "\<not> correlated (executionId pe) msg \<Longrightarrow> responseHandler msg pe = Inr pe \<or> (\<exists>e. responseHandler msg pe = Inl e)"
  by (auto simp: responseHandler_def correlated_def get_prop_def)

lemma responseHandler_correlated:
  "correlated (executionId pe) msg \<Longrightarrow>
   responseHandler msg pe = Inr (settle (response_outcome msg) (pe\<lparr>timeoutArmed := False, listening := False\<rparr>))"
  by (simp add: responseHandler_def correlated_def get_prop_def response_outcome_def)

lemma step_not_terminal:
  assumes "\<not> terminal (executionId pe) ev"
  shows "exec_step pe ev = pe"
proof (cases ev)
  case TimeoutFires
  then show ?thesis using assms by simp
next
  case (Input msg)
  then have "\<not> correlated (executionId pe) msg" using assms by simp
  from responseHandler_uncorrelated [OF this] show ?thesis using Input by auto
qed

lemma step_id: "executionId (exec_step pe ev) = executionId pe"
proof (cases ev)
  case TimeoutFires
  then show ?thesis by (simp add: timeout_callback_def settle_def)
next
  case (Input msg)
  show ?thesis
  proof (cases "correlated (executionId pe) msg")
    case True
    then show ?thesis using Input by (simp add: responseHandler_correlated settle_def)
  next
    case False
    then show ?thesis using step_not_terminal [of pe ev] Input by simp
  qed
qed










section \<open>Process supervisor: restart budget\<close>
















text \<open>Starting a node whose command can be spawned.\<close>

lemma startServer_spawnable:
  assumes "\<not> isRunning node" "\<not> (serverType node = ''python'' \<and> serverPath node = [])"
    and "fst (spawn_command node) \<noteq> []"
  shows "fst (startServer node) =
     node\<lparr>statusText := (case cacheSetError node of None \<Rightarrow> ''starting...'' | Some message \<Rightarrow> ''error''),
          serverProcess := Some (length (spawns node)),
          spawns := spawns node @
            [\<lparr>sp_command = fst (spawn_command node), sp_args = snd (spawn_command node),
              sp_env = spawn_env node\<rparr>]\<rparr>"
  using assms by (auto simp: startServer_def Let_def split: option.splits)







lemma py_node_fields:
  "\<not> isRunning py_node" "serverType py_node = ''python''" "serverPath py_node = ''server.py''"
  "maxRestarts py_node = 2" "restartCount py_node = 0" "restartTimers py_node = 0"
  "spawns py_node = []" "sent py_node = []" "serverId py_node = ''id-1''"
  "serverName py_node = ''srv''" "serverPort py_node = 8000" "processEnv py_node = []"
  "serverArgs py_node = []" "serverProcess py_node = None"
  "cacheSetError py_node = Some ''Cannot assign to read only property writeQueueSize''"
  by (simp_all add: py_node_def MCPServerNode_def)

lemma py_spawn_command: "spawn_command py_node = (''python3'', [''server.py''])"
  by (simp add: spawn_command_def additionalArgs_def py_node_fields)



section \<open>Process supervisor: start\<close>

lemma spawn_env_lookup:
  "map_of (spawn_env node) k =
     (if k = ''NODE_RED_MCP_SERVER_ID'' then Some (serverId node)
      else if k = ''MCP_SERVER_NAME'' then Some (serverName node)
      else if k = ''MCP_SERVER_PORT'' then Some (decimal_of_nat (serverPort node))
      else map_of (processEnv node) k)"
  by (simp add: spawn_env_def update_conv')

lemma startServer_result:
  assumes "\<not> isRunning node" "\<not> (serverType node = ''python'' \<and> serverPath node = [])"
    and "fst (spawn_command node) \<noteq> []"
  shows "snd (startServer node) =
     (case cacheSetError node of
        None \<Rightarrow> Inr (call_ok True ''Server starting'' [(''serverId'', JStr (serverId node))])
      | Some message \<Rightarrow> Inl message)"
  using assms by (auto simp: startServer_def Let_def split: option.splits)

text \<open>
  Claim C8, as amended. While \<open>isRunning\<close> is set (a startup marker was seen and the
  process has neither exited nor been stopped since), \<open>start\<close> answers
  \<open>{success:false, message:"Server already running"}\<close> and spawns nothing. Whenever
  \<open>isRunning\<close> is not set, whether or not a process handle exists, \<open>start\<close> spawns the
  configured command (unless a Python server has no path or the command is empty, when it
  reports the error and spawns nothing), with the environment of the node process
  overlaid by the port, the server name and the generated instance id; it stores the new
  handle, and it answers \<open>Server starting\<close> with the instance id when \<open>serverCache.set\<close>
  returns and hands the callback the error, with status \<open>error\<close>, when that call throws.
\<close>

theorem startServer_guard:
  "(isRunning node \<longrightarrow>
      startServer node = (node, Inr (call_ok False ''Server already running'' [])))
   \<and> (\<not> isRunning node \<and> \<not> (serverType node = ''python'' \<and> serverPath node = [])
        \<and> fst (spawn_command node) \<noteq> [] \<longrightarrow>
      spawns (fst (startServer node)) =
        spawns node @ [\<lparr>sp_command = fst (spawn_command node), sp_args = snd (spawn_command node),
                        sp_env = spawn_env node\<rparr>]
      \<and> serverProcess (fst (startServer node)) = Some (length (spawns node))
      \<and> (cacheSetError node = None \<longrightarrow>
            snd (startServer node) =
              Inr (call_ok True ''Server starting'' [(''serverId'', JStr (serverId node))])
            \<and> statusText (fst (startServer node)) = ''starting...'')
      \<and> (\<forall>message. cacheSetError node = Some message \<longrightarrow>
            snd (startServer node) = Inl message
            \<and> statusText (fst (startServer node)) = ''error'')
      \<and> map_of (spawn_env node) ''MCP_SERVER_PORT'' = Some (decimal_of_nat (serverPort node))
      \<and> map_of (spawn_env node) ''MCP_SERVER_NAME'' = Some (serverName node)
      \<and> map_of (spawn_env node) ''NODE_RED_MCP_SERVER_ID'' = Some (serverId node)
      \<and> (\<forall>k. k \<notin> {''MCP_SERVER_PORT'', ''MCP_SERVER_NAME'', ''NODE_RED_MCP_SERVER_ID''} \<longrightarrow>
            map_of (spawn_env node) k = map_of (processEnv node) k))
   \<and> (\<not> isRunning node \<and> ((serverType node = ''python'' \<and> serverPath node = [])
        \<or> fst (spawn_command node) = []) \<longrightarrow>
      spawns (fst (startServer node)) = spawns node
      \<and> serverProcess (fst (startServer node)) = serverProcess node
      \<and> (\<exists>err. snd (startServer node) = Inl err))"
proof (intro conjI impI allI)
  assume "isRunning node"
  then show "startServer node = (node, Inr (call_ok False ''Server already running'' []))"
    by (simp add: startServer_def)
next
  assume a: "\<not> isRunning node \<and> \<not> (serverType node = ''python'' \<and> serverPath node = [])
        \<and> fst (spawn_command node) \<noteq> []"
  then have s: "fst (startServer node) =
     node\<lparr>statusText := (case cacheSetError node of None \<Rightarrow> ''starting...'' | Some message \<Rightarrow> ''error''),
          serverProcess := Some (length (spawns node)),
          spawns := spawns node @
            [\<lparr>sp_command = fst (spawn_command node), sp_args = snd (spawn_command node),
              sp_env = spawn_env node\<rparr>]\<rparr>"
    by (intro startServer_spawnable) simp_all
  from a have r: "snd (startServer node) =
     (case cacheSetError node of
        None \<Rightarrow> Inr (call_ok True ''Server starting'' [(''serverId'', JStr (serverId node))])
      | Some message \<Rightarrow> Inl message)"
    by (intro startServer_result) simp_all
  show "spawns (fst (startServer node)) =
        spawns node @ [\<lparr>sp_command = fst (spawn_command node), sp_args = snd (spawn_command node),
                        sp_env = spawn_env node\<rparr>]"
    unfolding s by simp
  show "serverProcess (fst (startServer node)) = Some (length (spawns node))"
    unfolding s by simp
  show "snd (startServer node) =
          Inr (call_ok True ''Server starting'' [(''serverId'', JStr (serverId node))])"
    if "cacheSetError node = None" using r that by simp
  show "statusText (fst (startServer node)) = ''starting...''"
    if "cacheSetError node = None" unfolding s using that by simp
  show "snd (startServer node) = Inl message"
    if "cacheSetError node = Some message" for message using r that by simp
  show "statusText (fst (startServer node)) = ''error''"
    if "cacheSetError node = Some message" for message unfolding s using that by simp
  show "map_of (spawn_env node) ''MCP_SERVER_PORT'' = Some (decimal_of_nat (serverPort node))"
    by (simp add: spawn_env_lookup)
  show "map_of (spawn_env node) ''MCP_SERVER_NAME'' = Some (serverName node)"
    by (simp add: spawn_env_lookup)
  show "map_of (spawn_env node) ''NODE_RED_MCP_SERVER_ID'' = Some (serverId node)"
    by (simp add: spawn_env_lookup)
  show "map_of (spawn_env node) k = map_of (processEnv node) k"
    if "k \<notin> {''MCP_SERVER_PORT'', ''MCP_SERVER_NAME'', ''NODE_RED_MCP_SERVER_ID''}" for k
    using that by (simp add: spawn_env_lookup)
next
  assume a: "\<not> isRunning node \<and> ((serverType node = ''python'' \<and> serverPath node = [])
        \<or> fst (spawn_command node) = [])"
  show "spawns (fst (startServer node)) = spawns node"
    using a unfolding startServer_def by auto
  show "serverProcess (fst (startServer node)) = serverProcess node"
    using a unfolding startServer_def by auto
  show "\<exists>err. snd (startServer node) = Inl err"
    using a unfolding startServer_def by auto
qed

lemma py_node_cached_fields:
  "\<not> isRunning py_node_cached" "serverType py_node_cached = ''python''"
  "serverPath py_node_cached = ''server.py''" "spawns py_node_cached = []"
  "serverId py_node_cached = ''id-1''" "serverArgs py_node_cached = []"
  "cacheSetError py_node_cached = None" "serverProcess py_node_cached = None"
  by (simp_all add: py_node_cached_def MCPServerNode_def)

lemma py_cached_spawn_command: "spawn_command py_node_cached = (''python3'', [''server.py''])"
  by (simp add: spawn_command_def additionalArgs_def py_node_cached_fields)

lemma py_started:
  "server_run py_node [StartServer] =
     py_node\<lparr>statusText := ''error'', serverProcess := Some 0,
       spawns := [\<lparr>sp_command = ''python3'', sp_args = [''server.py''],
                   sp_env = spawn_env py_node\<rparr>]\<rparr>"
  by (simp add: server_run_def startServer_def py_spawn_command py_node_fields)

lemma py_cached_started:
  "server_run py_node_cached [StartServer] =
     py_node_cached\<lparr>statusText := ''starting...'', serverProcess := Some 0,
       spawns := [\<lparr>sp_command = ''python3'', sp_args = [''server.py''],
                   sp_env = spawn_env py_node_cached\<rparr>]\<rparr>"
  by (simp add: server_run_def startServer_def py_cached_spawn_command py_node_cached_fields)

lemma split_no_break_space:
  "split_ws nbsp_args = [''-a'', ''-b'', ''-c'']" "nbsp_args \<noteq> []"
  by code_simp+

lemma py_spawn_command_args:
  "spawn_command (py_node\<lparr>serverArgs := nbsp_args\<rparr>) =
     (''python3'', [''server.py'', ''-a'', ''-b'', ''-c''])"
  by (simp add: spawn_command_def additionalArgs_def py_node_fields split_no_break_space)

theorem startServer_guard_witness:
  "snd (startServer (py_node\<lparr>isRunning := True\<rparr>)) =
     Inr (call_ok False ''Server already running'' [])
   \<and> map sp_args (spawns (fst (startServer (py_node\<lparr>serverArgs := nbsp_args\<rparr>)))) =
       [[''server.py'', ''-a'', ''-b'', ''-c'']]
   \<and> spawns (fst (startServer py_node)) =
       [\<lparr>sp_command = ''python3'', sp_args = [''server.py''], sp_env = spawn_env py_node\<rparr>]
   \<and> snd (startServer py_node) = Inl ''Cannot assign to read only property writeQueueSize''
   \<and> snd (startServer py_node_cached) =
       Inr (call_ok True ''Server starting'' [(''serverId'', JStr ''id-1'')])
   \<and> map_of (spawn_env py_node) ''MCP_SERVER_NAME'' = Some ''srv''
   \<and> (\<exists>err. snd (startServer (py_node\<lparr>serverPath := []\<rparr>)) = Inl err)"
  using startServer_guard [of "py_node\<lparr>isRunning := True\<rparr>"]
    startServer_guard [of py_node]
    startServer_guard [of py_node_cached]
    startServer_guard [of "py_node\<lparr>serverPath := []\<rparr>"]
    startServer_guard [of "py_node\<lparr>serverArgs := nbsp_args\<rparr>"]
  by (simp add: py_spawn_command py_node_fields py_cached_spawn_command py_node_cached_fields
      py_spawn_command_args)

text \<open>A node that has spawned its process and has not yet seen a startup marker holds a
  process handle; \<open>start\<close> does not answer \<open>Server already running\<close> and spawns a second
  process, whether \<open>serverCache.set\<close> throws or returns.\<close>

theorem startServer_handle_counterexample:
  "serverProcess (server_run py_node [StartServer]) = Some 0
   \<and> snd (startServer (server_run py_node [StartServer])) =
       Inl ''Cannot assign to read only property writeQueueSize''
   \<and> length (spawns (fst (startServer (server_run py_node [StartServer])))) = 2
   \<and> serverProcess (server_run py_node_cached [StartServer]) = Some 0
   \<and> snd (startServer (server_run py_node_cached [StartServer])) =
       Inr (call_ok True ''Server starting'' [(''serverId'', JStr ''id-1'')])
   \<and> length (spawns (fst (startServer (server_run py_node_cached [StartServer])))) = 2"
  unfolding py_started py_cached_started
  by (simp add: startServer_def spawn_command_def additionalArgs_def py_node_fields
      py_node_cached_fields)

section \<open>MCP client: armed timeouts and pending requests\<close>

lemma map_of_fresh:
  "\<forall>h \<in> fst ` set tm. h < (nh::nat) \<Longrightarrow> map_of tm nh = None"
proof -
  assume a: "\<forall>h \<in> fst ` set tm. h < nh"
  have "nh \<notin> fst ` set tm"
  proof
    assume "nh \<in> fst ` set tm"
    with a have "nh < nh" by blast
    then show False by simp
  qed
  then show ?thesis by (simp add: map_of_eq_None_iff)
qed

lemma map_of_snoc:
  "map_of tm h = None \<Longrightarrow> map_of (tm @ [(h, k)]) x = (if x = h then Some k else map_of tm x)"
  by (auto simp: map_add_def split: option.splits)

lemma core_invI:
  assumes "\<forall>h \<in> fst ` set tm. h < nh"
    and "distinct (map fst tm)"
    and "\<And>t ident f. map_of tm t = Some (RequestTimeout ident f) \<Longrightarrow>
            map_of pr ident = Some \<lparr>callback = f, timeout = t\<rparr>"
    and "\<And>ident r. map_of pr ident = Some r \<Longrightarrow>
            map_of tm (timeout r) = Some (RequestTimeout ident (callback r))"
    and "\<And>t. map_of tm t = Some ReconnectTimer \<Longrightarrow> rt = Some t"
    and "\<And>t. rt = Some t \<Longrightarrow> map_of tm t = Some ReconnectTimer"
    and "\<And>ident r. map_of pr ident = Some r \<Longrightarrow> ident \<in> u ` {..<uc}"
  shows "core_inv u (tm, nh, pr, rt, uc)"
  unfolding core_inv.simps
proof (intro conjI allI impI)
  show "\<forall>h \<in> fst ` set tm. h < nh" by (rule assms(1))
  show "distinct (map fst tm)" by (rule assms(2))
  show "map_of pr ident = Some \<lparr>callback = f, timeout = t\<rparr>"
    if "map_of tm t = Some (RequestTimeout ident f)" for t ident f
    using that by (rule assms(3))
  show "map_of tm (timeout r) = Some (RequestTimeout ident (callback r))"
    if "map_of pr ident = Some r" for ident r
    using that by (rule assms(4))
  show "rt = Some t" if "map_of tm t = Some ReconnectTimer" for t
    using that by (rule assms(5))
  show "map_of tm t = Some ReconnectTimer" if "rt = Some t" for t
    using that by (rule assms(6))
  show "ident \<in> u ` {..<uc}" if "map_of pr ident \<noteq> None" for ident
  proof -
    from that obtain r where "map_of pr ident = Some r" by blast
    then show ?thesis by (rule assms(7))
  qed
qed

lemma core_invD:
  assumes "core_inv u (tm, nh, pr, rt, uc)"
  shows "\<And>h k. (h, k) \<in> set tm \<Longrightarrow> h < nh"
    and "distinct (map fst tm)"
    and "\<And>t ident f. map_of tm t = Some (RequestTimeout ident f) \<Longrightarrow>
            map_of pr ident = Some \<lparr>callback = f, timeout = t\<rparr>"
    and "\<And>ident r. map_of pr ident = Some r \<Longrightarrow>
            map_of tm (timeout r) = Some (RequestTimeout ident (callback r))"
    and "\<And>t. map_of tm t = Some ReconnectTimer \<Longrightarrow> rt = Some t"
    and "\<And>t. rt = Some t \<Longrightarrow> map_of tm t = Some ReconnectTimer"
    and "\<And>ident r. map_of pr ident = Some r \<Longrightarrow> ident \<in> u ` {..<uc}"
proof -
  from assms have c:
    "(\<forall>h \<in> fst ` set tm. h < nh)
      \<and> distinct (map fst tm)
      \<and> (\<forall>t ident f. map_of tm t = Some (RequestTimeout ident f) \<longrightarrow>
            map_of pr ident = Some \<lparr>callback = f, timeout = t\<rparr>)
      \<and> (\<forall>ident r. map_of pr ident = Some r \<longrightarrow>
            map_of tm (timeout r) = Some (RequestTimeout ident (callback r)))
      \<and> (\<forall>t. map_of tm t = Some ReconnectTimer \<longrightarrow> rt = Some t)
      \<and> (\<forall>t. rt = Some t \<longrightarrow> map_of tm t = Some ReconnectTimer)
      \<and> (\<forall>ident. map_of pr ident \<noteq> None \<longrightarrow> ident \<in> u ` {..<uc})"
    unfolding core_inv.simps .
  note c1 = c [THEN conjunct1]
  note c2 = c [THEN conjunct2, THEN conjunct1]
  note c3 = c [THEN conjunct2, THEN conjunct2, THEN conjunct1]
  note c4 = c [THEN conjunct2, THEN conjunct2, THEN conjunct2, THEN conjunct1]
  note c5 = c [THEN conjunct2, THEN conjunct2, THEN conjunct2, THEN conjunct2, THEN conjunct1]
  note c6 = c [THEN conjunct2, THEN conjunct2, THEN conjunct2, THEN conjunct2, THEN conjunct2,
               THEN conjunct1]
  note c7 = c [THEN conjunct2, THEN conjunct2, THEN conjunct2, THEN conjunct2, THEN conjunct2,
               THEN conjunct2]
  show "h < nh" if "(h, k) \<in> set tm" for h k
  proof -
    from that have "h \<in> fst ` set tm" by force
    with c1 show ?thesis by (rule bspec)
  qed
  show "distinct (map fst tm)" by (rule c2)
  show "map_of pr ident = Some \<lparr>callback = f, timeout = t\<rparr>"
    if "map_of tm t = Some (RequestTimeout ident f)" for t ident f
    using c3 [rule_format, OF that] .
  show "map_of tm (timeout r) = Some (RequestTimeout ident (callback r))"
    if "map_of pr ident = Some r" for ident r
    using c4 [rule_format, OF that] .
  show "rt = Some t" if "map_of tm t = Some ReconnectTimer" for t
    using c5 [rule_format, OF that] .
  show "map_of tm t = Some ReconnectTimer" if "rt = Some t" for t
    using c6 [rule_format, OF that] .
  show "ident \<in> u ` {..<uc}" if "map_of pr ident = Some r" for ident r
  proof -
    from that have "map_of pr ident \<noteq> None" by simp
    then show ?thesis using c7 [rule_format] by blast
  qed
qed

declare core_inv.simps [simp del]

lemma core_fresh:
  assumes "core_inv u (tm, nh, pr, rt, uc)"
  shows "map_of tm nh = None" and "nh \<notin> fst ` set tm"
proof -
  show "nh \<notin> fst ` set tm"
  proof
    assume "nh \<in> fst ` set tm"
    then obtain k where "(nh, k) \<in> set tm" by auto
    from core_invD(1) [OF assms this] show False by simp
  qed
  then show "map_of tm nh = None" by (simp add: map_of_eq_None_iff)
qed

lemma core_frame:
  assumes "core_inv u (tm, nh, pr, rt, uc)" "nh \<le> nh'" "uc \<le> uc'"
  shows "core_inv u (tm, nh', pr, rt, uc')"
proof (rule core_invI)
  note d = core_invD [OF assms(1)]
  show "\<forall>h \<in> fst ` set tm. h < nh'"
  proof
    fix h assume "h \<in> fst ` set tm"
    then obtain k where "(h, k) \<in> set tm" by auto
    from d(1) [OF this] assms(2) show "h < nh'" by simp
  qed
  show "distinct (map fst tm)" by (rule d(2))
  show "map_of pr ident = Some \<lparr>callback = f, timeout = t\<rparr>"
    if "map_of tm t = Some (RequestTimeout ident f)" for t ident f
    using that by (rule d(3))
  show "map_of tm (timeout r) = Some (RequestTimeout ident (callback r))"
    if "map_of pr ident = Some r" for ident r
    using that by (rule d(4))
  show "rt = Some t" if "map_of tm t = Some ReconnectTimer" for t
    using that by (rule d(5))
  show "map_of tm t = Some ReconnectTimer" if "rt = Some t" for t
    using that by (rule d(6))
  show "ident \<in> u ` {..<uc'}" if "map_of pr ident = Some r" for ident r
  proof -
    from d(7) [OF that] obtain j where "j < uc" "ident = u j" by auto
    with assms(3) show ?thesis by auto
  qed
qed

text \<open>Arming a timeout that is neither a request timeout nor a reconnect timer.\<close>

lemma core_arm:
  assumes "core_inv u (tm, nh, pr, rt, uc)"
    and "map_of tm' = (map_of tm)(nh \<mapsto> k)" "fst ` set tm' = insert nh (fst ` set tm)"
    and "distinct (map fst tm') = distinct (map fst tm)"
    and "pr' = pr \<and> rt' = rt \<and> k = HandshakeTimer
         \<or> pr' = pr \<and> rt = None \<and> rt' = Some nh \<and> k = ReconnectTimer"
  shows "core_inv u (tm', Suc nh, pr', rt', uc)"
proof (rule core_invI)
  note d = core_invD [OF assms(1)]
  note fresh = core_fresh [OF assms(1)]
  have m: "map_of tm' x = (if x = nh then Some k else map_of tm x)" for x
    by (simp add: assms(2))
  have prq: "pr' = pr" using assms(5) by auto
  show "\<forall>h \<in> fst ` set tm'. h < Suc nh"
  proof
    fix h assume "h \<in> fst ` set tm'"
    then have "h = nh \<or> h \<in> fst ` set tm" by (simp add: assms(3))
    then show "h < Suc nh"
    proof
      assume "h = nh" then show ?thesis by simp
    next
      assume "h \<in> fst ` set tm"
      then obtain q where "(h, q) \<in> set tm" by auto
      from d(1) [OF this] show ?thesis by simp
    qed
  qed
  show "distinct (map fst tm')" using d(2) assms(4) by simp
  show "map_of pr' ident = Some \<lparr>callback = f, timeout = t\<rparr>"
    if "map_of tm' t = Some (RequestTimeout ident f)" for t ident f
  proof -
    from that assms(5) have "t \<noteq> nh" by (auto simp: m)
    with that have "map_of tm t = Some (RequestTimeout ident f)" by (simp add: m)
    from d(3) [OF this] show ?thesis by (simp add: prq)
  qed
  show "map_of tm' (timeout r) = Some (RequestTimeout ident (callback r))"
    if "map_of pr' ident = Some r" for ident r
  proof -
    from that have "map_of tm (timeout r) = Some (RequestTimeout ident (callback r))"
      using d(4) by (simp add: prq)
    moreover from this fresh(1) have "timeout r \<noteq> nh" by auto
    ultimately show ?thesis by (simp add: m)
  qed
  show "rt' = Some t" if "map_of tm' t = Some ReconnectTimer" for t
  proof (cases "t = nh")
    case True
    with that have "k = ReconnectTimer" by (simp add: m)
    with assms(5) True show ?thesis by auto
  next
    case False
    with that have "map_of tm t = Some ReconnectTimer" by (simp add: m)
    from d(5) [OF this] assms(5) show ?thesis by auto
  qed
  show "map_of tm' t = Some ReconnectTimer" if "rt' = Some t" for t
  proof (cases "t = nh")
    case True
    from assms(5) show ?thesis
    proof
      assume h: "pr' = pr \<and> rt' = rt \<and> k = HandshakeTimer"
      with that True have "rt = Some nh" by simp
      from d(6) [OF this] fresh(1) show ?thesis by simp
    next
      assume "pr' = pr \<and> rt = None \<and> rt' = Some nh \<and> k = ReconnectTimer"
      with True show ?thesis by (simp add: m)
    qed
  next
    case False
    with that assms(5) have "rt = Some t" by auto
    from d(6) [OF this] False show ?thesis by (simp add: m)
  qed
  show "ident \<in> u ` {..<uc}" if "map_of pr' ident = Some r" for ident r
    using that d(7) by (simp add: prq)
qed

lemma snoc_facts:
  assumes "nh \<notin> fst ` set tm"
  shows "map_of (tm @ [(nh, k)]) = (map_of tm)(nh \<mapsto> k)"
    and "fst ` set (tm @ [(nh, k)]) = insert nh (fst ` set tm)"
    and "distinct (map fst (tm @ [(nh, k)])) = distinct (map fst tm)"
proof -
  have n: "map_of tm nh = None" using assms by (simp add: map_of_eq_None_iff)
  show "map_of (tm @ [(nh, k)]) = (map_of tm)(nh \<mapsto> k)"
  proof (rule ext)
    fix x show "map_of (tm @ [(nh, k)]) x = ((map_of tm)(nh \<mapsto> k)) x"
      using n by (cases "map_of tm x") (auto simp: map_add_def)
  qed
  show "fst ` set (tm @ [(nh, k)]) = insert nh (fst ` set tm)" by auto
  show "distinct (map fst (tm @ [(nh, k)])) = distinct (map fst tm)" using assms by auto
qed

lemma core_arm_request:
  assumes "core_inv u (tm, nh, pr, rt, uc)" "inj u"
    and "map_of tm' = (map_of tm)(nh \<mapsto> RequestTimeout (u uc) f)"
    and "fst ` set tm' = insert nh (fst ` set tm)"
    and "distinct (map fst tm') = distinct (map fst tm)"
    and "map_of pr' = (map_of pr)(u uc \<mapsto> \<lparr>callback = f, timeout = nh\<rparr>)"
  shows "core_inv u (tm', Suc nh, pr', rt, Suc uc)"
proof (rule core_invI)
  note d = core_invD [OF assms(1)]
  note fresh = core_fresh [OF assms(1)]
  note sn = assms(3-5)
  have m: "map_of tm' x =
      (if x = nh then Some (RequestTimeout (u uc) f) else map_of tm x)" for x
    unfolding sn(1) by simp
  have p: "map_of pr' x =
      (if x = u uc then Some \<lparr>callback = f, timeout = nh\<rparr> else map_of pr x)" for x
    unfolding assms(6) by simp
  have newid: "map_of pr (u uc) = None"
  proof (cases "map_of pr (u uc)")
    case None
    then show ?thesis .
  next
    case (Some r)
    from d(7) [OF this] obtain j where "j < uc" "u uc = u j" by auto
    with assms(2) show ?thesis by (auto dest: injD)
  qed
  show "\<forall>h \<in> fst ` set tm'. h < Suc nh"
  proof
    fix h assume "h \<in> fst ` set tm'"
    then have "h = nh \<or> h \<in> fst ` set tm" by (simp add: sn(2))
    then show "h < Suc nh"
    proof
      assume "h = nh" then show ?thesis by simp
    next
      assume "h \<in> fst ` set tm"
      then obtain q where "(h, q) \<in> set tm" by auto
      from d(1) [OF this] show ?thesis by simp
    qed
  qed
  show "distinct (map fst tm')"
    using d(2) sn(3) by simp
  show "map_of pr' ident
          = Some \<lparr>callback = g, timeout = t\<rparr>"
    if "map_of tm' t = Some (RequestTimeout ident g)"
    for t ident g
  proof (cases "t = nh")
    case True
    with that show ?thesis by (simp add: m p)
  next
    case False
    with that have old: "map_of tm t = Some (RequestTimeout ident g)" by (simp add: m)
    from d(3) [OF old] newid have "ident \<noteq> u uc" by auto
    with d(3) [OF old] show ?thesis by (simp add: p)
  qed
  show "map_of tm' (timeout r)
          = Some (RequestTimeout ident (callback r))"
    if "map_of pr' ident = Some r"
    for ident r
  proof (cases "ident = u uc")
    case True
    with that have "r = \<lparr>callback = f, timeout = nh\<rparr>" by (simp add: p)
    with True show ?thesis by (simp add: m)
  next
    case False
    with that have old: "map_of pr ident = Some r" by (simp add: p)
    from d(4) [OF old] fresh(1) have "timeout r \<noteq> nh" by auto
    with d(4) [OF old] show ?thesis by (simp add: m)
  qed
  show "rt = Some t" if "map_of tm' t = Some ReconnectTimer" for t
  proof -
    from that have "t \<noteq> nh" by (auto simp: m)
    with that have "map_of tm t = Some ReconnectTimer" by (simp add: m)
    then show ?thesis by (rule d(5))
  qed
  show "map_of tm' t = Some ReconnectTimer" if "rt = Some t" for t
  proof -
    from d(6) [OF that] fresh(1) have "t \<noteq> nh" by auto
    with d(6) [OF that] show ?thesis by (simp add: m)
  qed
  show "ident \<in> u ` {..<Suc uc}"
    if "map_of pr' ident = Some r"
    for ident r
  proof (cases "ident = u uc")
    case True
    then show ?thesis by auto
  next
    case False
    with that have "map_of pr ident = Some r" by (simp add: p)
    from d(7) [OF this] show ?thesis by (auto simp: lessThan_Suc)
  qed
qed

text \<open>Removing an armed timeout, together with what its kind owns.\<close>

lemma core_remove_timer:
  assumes "core_inv u (tm, nh, pr, rt, uc)" "map_of tm t = Some k"
    and "pr' = (case k of RequestTimeout ident f \<Rightarrow> AList.delete ident pr | _ \<Rightarrow> pr)"
    and "rt' = (case k of ReconnectTimer \<Rightarrow> None | _ \<Rightarrow> rt)"
  shows "core_inv u (AList.delete t tm, nh, pr', rt', uc)"
proof (rule core_invI)
  note d = core_invD [OF assms(1)]
  have m: "map_of (AList.delete t tm) x = (if x = t then None else map_of tm x)" for x
    by (simp add: delete_conv')
  have p: "map_of pr' x = (case k of RequestTimeout ident f \<Rightarrow> if x = ident then None else map_of pr x
                           | _ \<Rightarrow> map_of pr x)" for x
    by (simp add: assms(3) delete_conv' split: timer_kind.splits)
  show "\<forall>h \<in> fst ` set (AList.delete t tm). h < nh"
  proof
    fix h assume "h \<in> fst ` set (AList.delete t tm)"
    then have "h \<in> fst ` set tm" using dom_delete_subset [of t tm] by blast
    then obtain q where "(h, q) \<in> set tm" by auto
    from d(1) [OF this] show "h < nh" .
  qed
  show "distinct (map fst (AList.delete t tm))" using d(2) by (rule distinct_delete)
  show "map_of pr' ident = Some \<lparr>callback = g, timeout = x\<rparr>"
    if "map_of (AList.delete t tm) x = Some (RequestTimeout ident g)" for x ident g
  proof -
    from that have xt: "x \<noteq> t" and old: "map_of tm x = Some (RequestTimeout ident g)"
      by (auto simp: m split: if_splits)
    note e = d(3) [OF old]
    show ?thesis
    proof (cases k)
      case (RequestTimeout i f)
      have "i \<noteq> ident"
      proof
        assume "i = ident"
        with RequestTimeout assms(2) have "map_of pr ident = Some \<lparr>callback = f, timeout = t\<rparr>"
          using d(3) by simp
        with e xt show False by simp
      qed
      with e RequestTimeout show ?thesis by (simp add: p)
    qed (use e in \<open>simp_all add: p\<close>)
  qed
  show "map_of (AList.delete t tm) (timeout r) = Some (RequestTimeout ident (callback r))"
    if "map_of pr' ident = Some r" for ident r
  proof -
    from that have old: "map_of pr ident = Some r"
      by (auto simp: p split: timer_kind.splits if_splits)
    note e = d(4) [OF old]
    have "timeout r \<noteq> t"
    proof
      assume "timeout r = t"
      with e assms(2) have k: "k = RequestTimeout ident (callback r)" by simp
      with that show False by (simp add: p)
    qed
    with e show ?thesis by (simp add: m)
  qed
  show "rt' = Some x" if "map_of (AList.delete t tm) x = Some ReconnectTimer" for x
  proof -
    from that have xt: "x \<noteq> t" and old: "map_of tm x = Some ReconnectTimer"
      by (auto simp: m split: if_splits)
    note e = d(5) [OF old]
    have "k \<noteq> ReconnectTimer"
    proof
      assume "k = ReconnectTimer"
      with assms(2) d(5) have "rt = Some t" by simp
      with e xt show False by simp
    qed
    with e show ?thesis by (cases k) (simp_all add: assms(4))
  qed
  show "map_of (AList.delete t tm) x = Some ReconnectTimer" if "rt' = Some x" for x
  proof -
    from that have kr: "k \<noteq> ReconnectTimer" and old: "rt = Some x"
      by (auto simp: assms(4) split: timer_kind.splits)
    note e = d(6) [OF old]
    from e assms(2) kr have "x \<noteq> t" by auto
    with e show ?thesis by (simp add: m)
  qed
  show "ident \<in> u ` {..<uc}" if "map_of pr' ident = Some r" for ident r
  proof -
    from that have "map_of pr ident = Some r"
      by (auto simp: p split: timer_kind.splits if_splits)
    then show ?thesis by (rule d(7))
  qed
qed

lemma core_remove_request:
  assumes "core_inv u (tm, nh, pr, rt, uc)" "map_of pr ident = Some r"
  shows "core_inv u (AList.delete (timeout r) tm, nh, AList.delete ident pr, rt, uc)"
proof -
  have "map_of tm (timeout r) = Some (RequestTimeout ident (callback r))"
    using core_invD(4) [OF assms] .
  from core_remove_timer [OF assms(1) this refl refl] show ?thesis by simp
qed

text \<open>Clearing the table together with every request timeout and the reconnect timer.\<close>

lemma core_cleared:
  assumes "core_inv u (tm, nh, pr, rt, uc)"
    and "fst ` set tm' \<subseteq> fst ` set tm" "distinct (map fst tm')"
    and "\<And>t k. map_of tm' t = Some k \<Longrightarrow> k = HandshakeTimer"
  shows "core_inv u (tm', nh, [], None, uc)"
proof (rule core_invI)
  note d = core_invD [OF assms(1)]
  show "\<forall>h \<in> fst ` set tm'. h < nh"
  proof
    fix h assume "h \<in> fst ` set tm'"
    with assms(2) have "h \<in> fst ` set tm" by blast
    then obtain q where "(h, q) \<in> set tm" by auto
    from d(1) [OF this] show "h < nh" .
  qed
  show "distinct (map fst tm')" by (rule assms(3))
  show "map_of [] ident = Some \<lparr>callback = f, timeout = t\<rparr>"
    if "map_of tm' t = Some (RequestTimeout ident f)" for t ident f
    using assms(4) [OF that] by simp
  show "map_of tm' (timeout r) = Some (RequestTimeout ident (callback r))"
    if "map_of [] ident = Some r" for ident and r :: pending_request
    using that by simp
  show "None = Some t" if "map_of tm' t = Some ReconnectTimer" for t
    using assms(4) [OF that] by simp
  show "map_of tm' t = Some ReconnectTimer" if "None = Some t" for t
    using that by simp
  show "ident \<in> u ` {..<uc}" if "map_of [] ident = Some r" for ident and r :: pending_request
    using that by simp
qed

lemma core_send [simp]: "core (send m n) = core n"
  by (simp add: core_def send_def)

lemma core_invoke [simp]: "core (invoke f e r n) = core n"
  by (simp add: core_def invoke_def)

lemma core_other_fields [simp]:
  "core (n\<lparr>isConnected := b\<rparr>) = core n"
  "core (n\<lparr>status := s\<rparr>) = core n"
  "core (n\<lparr>sockets := sk\<rparr>) = core n"
  "core (n\<lparr>calls := cs\<rparr>) = core n"
  "core (n\<lparr>wire := w\<rparr>) = core n"
  "core (n\<lparr>outputs := out\<rparr>) = core n"
  "core (n\<lparr>connection := c\<rparr>) = core n"
  by (simp_all add: core_def)

lemma client_inv_frame:
  assumes "client_inv u n"
    and "timers n' = timers n" "pendingRequests n' = pendingRequests n"
    and "reconnectTimer n' = reconnectTimer n"
    and "nextHandle n \<le> nextHandle n'" "uuidCalls n \<le> uuidCalls n'"
  shows "client_inv u n'"
proof -
  have "core_inv u (timers n, nextHandle n', pendingRequests n, reconnectTimer n, uuidCalls n')"
    using assms(1,5,6) unfolding client_inv_def core_def by (rule core_frame)
  then show ?thesis by (simp add: client_inv_def core_def assms(2-4))
qed

lemma client_inv_same: "core n' = core n \<Longrightarrow> client_inv u n \<Longrightarrow> client_inv u n'"
  by (simp add: client_inv_def)

lemma connect_frame:
  "timers (connect f n) = timers n" "pendingRequests (connect f n) = pendingRequests n"
  "reconnectTimer (connect f n) = reconnectTimer n"
  "nextHandle n \<le> nextHandle (connect f n)" "uuidCalls (connect f n) = uuidCalls n"
  by (simp_all add: connect_def connectHTTP_def connectSSE_def connectWebSocket_def
      new_socket_def invoke_def)

lemma inv_connect:
  assumes "client_inv u n"
  shows "client_inv u (connect f n)"
  using assms connect_frame(1-4) [where f = f and n = n]
proof (rule client_inv_frame)
  show "uuidCalls n \<le> uuidCalls (connect f n)" by (simp add: connect_frame(5))
qed

lemma inv_setTimeout:
  assumes "client_inv u n"
  shows "client_inv u (setTimeout HandshakeTimer n)"
proof -
  from assms have c: "core_inv u (timers n, nextHandle n, pendingRequests n, reconnectTimer n, uuidCalls n)"
    by (simp add: client_inv_def core_def)
  note sn = snoc_facts [OF core_fresh(2) [OF c], of HandshakeTimer]
  have "core_inv u (timers n @ [(nextHandle n, HandshakeTimer)], Suc (nextHandle n),
          pendingRequests n, reconnectTimer n, uuidCalls n)"
    by (rule core_arm [OF c sn]) simp
  then show ?thesis by (simp add: client_inv_def core_def setTimeout_def)
qed

lemma inv_scheduleReconnect:
  assumes "client_inv u n"
  shows "client_inv u (scheduleReconnect n)"
proof (cases "reconnectTimer n")
  case (Some t)
  then show ?thesis using assms by (simp add: scheduleReconnect_def)
next
  case None
  from assms have c: "core_inv u (timers n, nextHandle n, pendingRequests n, reconnectTimer n, uuidCalls n)"
    by (simp add: client_inv_def core_def)
  note sn = snoc_facts [OF core_fresh(2) [OF c], of ReconnectTimer]
  have "core_inv u (timers n @ [(nextHandle n, ReconnectTimer)], Suc (nextHandle n),
          pendingRequests n, Some (nextHandle n), uuidCalls n)"
    by (rule core_arm [OF c sn]) (simp add: None)
  then show ?thesis using None
    by (simp add: client_inv_def core_def scheduleReconnect_def setTimeout_def)
qed

lemma inv_setTimeout':
  "client_inv u n \<Longrightarrow> core n' = core n \<Longrightarrow> client_inv u (setTimeout HandshakeTimer n')"
  by (rule inv_setTimeout) (simp add: client_inv_def)

lemma inv_scheduleReconnect':
  "client_inv u n \<Longrightarrow> core n' = core n \<Longrightarrow> client_inv u (scheduleReconnect n')"
  by (rule inv_scheduleReconnect) (simp add: client_inv_def)

lemma inv_on_open:
  assumes "client_inv u n"
  shows "client_inv u (on_open c ev n)"
proof (cases "map_of (sockets n) c")
  case None
  then show ?thesis using assms by (simp add: on_open_def)
next
  case (Some sk)
  show ?thesis unfolding on_open_def Let_def Some option.case
    by (rule inv_setTimeout' [OF assms]) simp
qed

lemma inv_on_error:
  assumes "client_inv u n"
  shows "client_inv u (on_error c n)"
proof (cases "map_of (sockets n) c")
  case None
  then show ?thesis using assms by (simp add: on_error_def)
next
  case (Some sk)
  show ?thesis
  proof (cases "reconnect n")
    case True
    have "on_error c n = scheduleReconnect (n\<lparr>isConnected := False,
        status := (if kind sk = EventSourceSock then ''SSE error'' else ''WS error'')\<rparr>)"
      using Some True by (simp add: on_error_def)
    then show ?thesis using inv_scheduleReconnect' [OF assms] by simp
  next
    case False
    have "on_error c n = n\<lparr>isConnected := False,
        status := (if kind sk = EventSourceSock then ''SSE error'' else ''WS error'')\<rparr>"
      using Some False by (simp add: on_error_def)
    then show ?thesis using client_inv_same [OF _ assms] by simp
  qed
qed

lemma inv_on_close:
  assumes "client_inv u n"
  shows "client_inv u (on_close c code n)"
proof (cases "map_of (sockets n) c")
  case None
  then show ?thesis using assms by (simp add: on_close_def)
next
  case (Some sk)
  let ?n1 = "n\<lparr>sockets := AList.update c (sk\<lparr>readyState := Closed\<rparr>) (sockets n),
                isConnected := False, status := ''disconnected''\<rparr>"
  have "on_close c code n = n \<or> on_close c code n = ?n1 \<or> on_close c code n = scheduleReconnect ?n1"
    using Some by (simp add: on_close_def Let_def)
  moreover have "client_inv u ?n1" using client_inv_same [OF _ assms] by simp
  moreover have "client_inv u (scheduleReconnect ?n1)"
    using inv_scheduleReconnect' [OF assms] by simp
  ultimately show ?thesis using assms by auto
qed

lemma inv_maybe_reconnect:
  assumes "client_inv u n" "core n' = core n"
  shows "client_inv u (if b then scheduleReconnect n' else n')"
  using inv_scheduleReconnect' [OF assms] client_inv_same [OF assms(2) assms(1)] by simp

lemma inv_call_settled:
  assumes "client_inv u n"
  shows "client_inv u (call_settled h outcome n)"
proof (cases "map_of (calls n) h")
  case None
  then show ?thesis using assms by (simp add: call_settled_def)
next
  case (Some call)
  show ?thesis
  proof (cases call)
    case (HealthGet f)
    show ?thesis
    proof (cases outcome)
      case (Inl err)
      show ?thesis unfolding call_settled_def Let_def Some HealthGet Inl
        by (simp only: option.case http_call.case sum.case)
          (rule inv_maybe_reconnect [OF assms], simp)
    next
      case (Inr data)
      show ?thesis unfolding call_settled_def Let_def Some HealthGet Inr
        by (simp only: option.case http_call.case sum.case)
          (rule client_inv_same [OF _ assms], simp)
    qed
  next
    case (HttpPost requestId f)
    show ?thesis unfolding call_settled_def Let_def Some HttpPost
      by (cases outcome; simp only: option.case http_call.case sum.case)
        (rule client_inv_same [OF _ assms], simp)+
  next
    case (SsePost f)
    show ?thesis unfolding call_settled_def Let_def Some SsePost
      by (cases outcome; simp only: option.case http_call.case sum.case)
        (rule client_inv_same [OF _ assms], simp)+
  qed
qed

lemma pending_entryD:
  "pending_entry n ident = Some (k, r) \<Longrightarrow> ident = JStr k \<and> map_of (pendingRequests n) k = Some r"
  by (cases ident) (auto simp: pending_entry_def)

lemma on_message_cases:
  "(\<exists>m. on_message c parsed raw n = send m n) \<or> on_message c parsed raw n = n
   \<or> (\<exists>message k r. parsed = Some message \<and> \<not> nullish message
        \<and> truthy (js_get message ''id'')
        \<and> js_get message ''id'' = JStr k \<and> map_of (pendingRequests n) k = Some r
        \<and> map_of (sockets n) c \<noteq> None
        \<and> on_message c parsed raw n =
            send (JObj [(''topic'', JStr ''response''), (''payload'', message),
                        (''requestId'', JStr k)])
              ((clearTimeout (timeout r) n)\<lparr>pendingRequests := AList.delete k (pendingRequests n)\<rparr>))"
proof (cases "map_of (sockets n) c")
  case None
  then show ?thesis by (simp add: on_message_def)
next
  case (Some sk)
  show ?thesis
  proof (cases parsed)
    case None
    then show ?thesis using Some by (auto simp: on_message_def)
  next
    case (Some message)
    note sm = this
    show ?thesis
    proof (cases "nullish message \<or> \<not> truthy (js_get message ''id'')")
      case True
      then show ?thesis using \<open>map_of (sockets n) c = Some sk\<close> sm by (auto simp: on_message_def)
    next
      case False
      show ?thesis
      proof (cases "pending_entry n (js_get message ''id'')")
        case None
        then show ?thesis using \<open>map_of (sockets n) c = Some sk\<close> sm False
          by (auto simp: on_message_def)
      next
        case (Some kr)
        obtain k r where kr: "kr = (k, r)" by (cases kr)
        from pending_entryD [OF Some [unfolded kr]]
        have e: "js_get message ''id'' = JStr k" "map_of (pendingRequests n) k = Some r" by auto
        have "on_message c parsed raw n =
            send (JObj [(''topic'', JStr ''response''), (''payload'', message),
                        (''requestId'', JStr k)])
              ((clearTimeout (timeout r) n)\<lparr>pendingRequests := AList.delete k (pendingRequests n)\<rparr>)"
          using \<open>map_of (sockets n) c = Some sk\<close> sm False Some kr e(1)
          by (simp add: on_message_def)
        then show ?thesis using e False sm \<open>map_of (sockets n) c = Some sk\<close> by auto
      qed
    qed
  qed
qed

lemma inv_remove_request:
  assumes "client_inv u n" "map_of (pendingRequests n) k = Some r"
  shows "client_inv u ((clearTimeout (timeout r) n)\<lparr>pendingRequests := AList.delete k (pendingRequests n)\<rparr>)"
proof -
  from assms(1) have c: "core_inv u (timers n, nextHandle n, pendingRequests n, reconnectTimer n, uuidCalls n)"
    by (simp add: client_inv_def core_def)
  from core_remove_request [OF c assms(2)] show ?thesis
    by (simp add: client_inv_def core_def clearTimeout_def)
qed

lemma inv_on_message:
  assumes "client_inv u n"
  shows "client_inv u (on_message c parsed raw n)"
  using on_message_cases [of c parsed raw n]
proof (elim disjE exE conjE)
  fix m assume "on_message c parsed raw n = send m n"
  then show ?thesis using client_inv_same [OF _ assms, of "send m n"] by simp
next
  assume "on_message c parsed raw n = n"
  then show ?thesis using assms by simp
next
  fix message k r
  assume p: "map_of (pendingRequests n) k = Some r"
    and e: "on_message c parsed raw n =
            send (JObj [(''topic'', JStr ''response''), (''payload'', message),
                        (''requestId'', JStr k)])
              ((clearTimeout (timeout r) n)\<lparr>pendingRequests := AList.delete k (pendingRequests n)\<rparr>)"
  have "client_inv u ((clearTimeout (timeout r) n)\<lparr>pendingRequests := AList.delete k (pendingRequests n)\<rparr>)"
    using assms p by (rule inv_remove_request)
  then show ?thesis unfolding e by (simp add: client_inv_def)
qed

lemma sendRequest_registers:
  assumes "ws_ready n"
  shows "timers (sendRequest u method params f n)
           = timers n @ [(nextHandle n, RequestTimeout (u (uuidCalls n)) f)]"
    and "nextHandle (sendRequest u method params f n) = Suc (nextHandle n)"
    and "pendingRequests (sendRequest u method params f n)
           = AList.update (u (uuidCalls n)) \<lparr>callback = f, timeout = nextHandle n\<rparr> (pendingRequests n)"
    and "reconnectTimer (sendRequest u method params f n) = reconnectTimer n"
    and "uuidCalls (sendRequest u method params f n) = Suc (uuidCalls n)"
    and "outputs (sendRequest u method params f n) = outputs n"
  using assms unfolding ws_ready_def
  by (auto simp: sendRequest_def Let_def setTimeout_def)

lemma sendRequest_frame:
  assumes "\<not> ws_ready n"
  shows "timers (sendRequest u method params f n) = timers n"
    and "pendingRequests (sendRequest u method params f n) = pendingRequests n"
    and "reconnectTimer (sendRequest u method params f n) = reconnectTimer n"
    and "nextHandle n \<le> nextHandle (sendRequest u method params f n)"
    and "uuidCalls n \<le> uuidCalls (sendRequest u method params f n)"
  using assms unfolding ws_ready_def
  by (auto simp: sendRequest_def Let_def invoke_def split: option.splits)

lemma inv_sendRequest:
  assumes "client_inv u n" "inj u"
  shows "client_inv u (sendRequest u method params f n)"
proof (cases "ws_ready n")
  case False
  from sendRequest_frame [OF False] show ?thesis
    by (intro client_inv_frame [OF assms(1)]) auto
next
  case True
  from assms(1) have c: "core_inv u (timers n, nextHandle n, pendingRequests n, reconnectTimer n, uuidCalls n)"
    by (simp add: client_inv_def core_def)
  note sn = snoc_facts [OF core_fresh(2) [OF c], of "RequestTimeout (u (uuidCalls n)) f"]
  have "core_inv u (timers n @ [(nextHandle n, RequestTimeout (u (uuidCalls n)) f)],
          Suc (nextHandle n),
          AList.update (u (uuidCalls n)) \<lparr>callback = f, timeout = nextHandle n\<rparr> (pendingRequests n),
          reconnectTimer n, Suc (uuidCalls n))"
    by (rule core_arm_request [OF c assms(2) sn]) (simp add: update_conv')
  then show ?thesis
    by (simp add: client_inv_def core_def sendRequest_registers [OF True])
qed

lemma fold_clear:
  "fold (\<lambda>(ident, request). clearTimeout (timeout request)) ps n
     = n\<lparr>timers := fold (\<lambda>(ident, request). AList.delete (timeout request)) ps (timers n)\<rparr>"
  by (induction ps arbitrary: n) (auto simp: clearTimeout_def)

lemma fold_delete_map_of:
  "map_of (fold (\<lambda>(ident, request). AList.delete (timeout request)) ps tm) t
     = (if t \<in> (\<lambda>(ident, request). timeout request) ` set ps then None else map_of tm t)"
  by (induction ps arbitrary: tm) (auto simp: delete_conv')

lemma fold_delete_keys:
  "fst ` set (fold (\<lambda>(ident, request). AList.delete (timeout request)) ps tm) \<subseteq> fst ` set tm"
proof (induction ps arbitrary: tm)
  case Nil
  then show ?case by simp
next
  case (Cons p ps)
  obtain i r where p: "p = (i, r)" by (cases p)
  have "fst ` set (fold (\<lambda>(ident, request). AList.delete (timeout request)) ps (AList.delete (timeout r) tm))
      \<subseteq> fst ` set (AList.delete (timeout r) tm)" by (rule Cons.IH)
  also have "\<dots> \<subseteq> fst ` set tm" by (rule dom_delete_subset)
  finally show ?case by (simp add: p)
qed

lemma fold_delete_distinct:
  "distinct (map fst tm) \<Longrightarrow>
   distinct (map fst (fold (\<lambda>(ident, request). AList.delete (timeout request)) ps tm))"
  by (induction ps arbitrary: tm) (auto simp: distinct_delete)

lemma disconnect_core:
  assumes "isConnected n"
  shows "timers (disconnect f n) = after_disconnect n"
    and "pendingRequests (disconnect f n) = []"
    and "reconnectTimer (disconnect f n) = None"
    and "nextHandle (disconnect f n) = nextHandle n"
    and "uuidCalls (disconnect f n) = uuidCalls n"
    and "\<not> isConnected (disconnect f n)"
    and "connection (disconnect f n) = None"
    and "status (disconnect f n) = ''disconnected''"
    and "outputs (disconnect f n) =
          outputs n @ (if f = NoCallback then [] else [Invoked f None (call_ok True ''Disconnected'' [])])"
  using assms
  by (auto simp: disconnect_def Let_def fold_clear after_disconnect_def invoke_def clearTimeout_def
      close_socket_def split: option.splits)

lemma after_disconnect_map_of:
  "map_of (after_disconnect n) t =
     (if t \<in> (\<lambda>(ident, request). timeout request) ` set (pendingRequests n)
         \<or> reconnectTimer n = Some t
      then None else map_of (timers n) t)"
  by (auto simp: after_disconnect_def fold_delete_map_of delete_conv' split: option.splits)

lemma inv_disconnect:
  assumes "client_inv u n"
  shows "client_inv u (disconnect f n)"
proof (cases "isConnected n")
  case False
  then have "disconnect f n = invoke f None (call_ok True ''Already disconnected'' []) n"
    by (simp add: disconnect_def)
  then show ?thesis using client_inv_same [OF _ assms] by simp
next
  case True
  from assms have c: "core_inv u (timers n, nextHandle n, pendingRequests n, reconnectTimer n, uuidCalls n)"
    by (simp add: client_inv_def core_def)
  note d = core_invD [OF c]
  have keys: "fst ` set (after_disconnect n) \<subseteq> fst ` set (timers n)"
  proof (cases "reconnectTimer n")
    case None
    then show ?thesis using fold_delete_keys [of "pendingRequests n" "timers n"]
      by (simp add: after_disconnect_def)
  next
    case (Some t)
    have "fst ` set (after_disconnect n) \<subseteq> fst ` set (AList.delete t (timers n))"
      using fold_delete_keys [of "pendingRequests n" "AList.delete t (timers n)"] Some
      by (simp add: after_disconnect_def)
    also have "\<dots> \<subseteq> fst ` set (timers n)" by (rule dom_delete_subset)
    finally show ?thesis .
  qed
  have dist: "distinct (map fst (after_disconnect n))"
    unfolding after_disconnect_def using d(2)
    by (auto intro!: fold_delete_distinct simp: distinct_delete split: option.splits)
  have only: "k = HandshakeTimer" if "map_of (after_disconnect n) t = Some k" for t k
  proof -
    from that have t1: "t \<notin> (\<lambda>(ident, request). timeout request) ` set (pendingRequests n)"
      and t2: "reconnectTimer n \<noteq> Some t" and old: "map_of (timers n) t = Some k"
      by (auto simp: after_disconnect_map_of split: if_splits)
    show ?thesis
    proof (cases k)
      case ReconnectTimer
      with old d(5) t2 show ?thesis by auto
    next
      case (RequestTimeout ident g)
      with old d(3) have "map_of (pendingRequests n) ident = Some \<lparr>callback = g, timeout = t\<rparr>"
        by simp
      then have "(ident, \<lparr>callback = g, timeout = t\<rparr>) \<in> set (pendingRequests n)"
        by (rule map_of_SomeD)
      then have "t \<in> (\<lambda>(ident, request). timeout request) ` set (pendingRequests n)"
        by force
      with t1 show ?thesis by simp
    next
      case HandshakeTimer
      then show ?thesis .
    qed
  qed
  have "core_inv u (after_disconnect n, nextHandle n, [], None, uuidCalls n)"
    using c keys dist only by (rule core_cleared)
  then show ?thesis by (simp add: client_inv_def core_def disconnect_core [OF True])
qed

lemma inv_timer_removed:
  assumes "client_inv u n" "map_of (timers n) t = Some k"
  shows "client_inv u (n\<lparr>timers := AList.delete t (timers n),
            pendingRequests := (case k of RequestTimeout ident f \<Rightarrow> AList.delete ident (pendingRequests n)
                                | _ \<Rightarrow> pendingRequests n),
            reconnectTimer := (case k of ReconnectTimer \<Rightarrow> None | _ \<Rightarrow> reconnectTimer n)\<rparr>)"
proof -
  from assms(1) have c: "core_inv u (timers n, nextHandle n, pendingRequests n, reconnectTimer n, uuidCalls n)"
    by (simp add: client_inv_def core_def)
  from core_remove_timer [OF c assms(2) refl refl] show ?thesis
    by (simp add: client_inv_def core_def)
qed

lemma inv_timer_fires:
  assumes "client_inv u n" "inj u"
  shows "client_inv u (timer_fires u t n)"
proof (cases "map_of (timers n) t")
  case None
  then show ?thesis using assms by (simp add: timer_fires_def)
next
  case (Some k)
  note rem = inv_timer_removed [OF assms(1) Some]
  show ?thesis
  proof (cases k)
    case ReconnectTimer
    let ?n1 = "n\<lparr>timers := AList.delete t (timers n), reconnectTimer := None\<rparr>"
    have i1: "client_inv u ?n1" using rem ReconnectTimer by (simp add: client_inv_def core_def)
    have "timer_fires u t n = ?n1 \<or> timer_fires u t n = connect NoCallback ?n1"
      using Some ReconnectTimer by (simp add: timer_fires_def reconnect_timeout_def Let_def)
    then show ?thesis using i1 inv_connect [OF i1] by auto
  next
    case (RequestTimeout ident g)
    let ?n1 = "n\<lparr>timers := AList.delete t (timers n),
                  pendingRequests := AList.delete ident (pendingRequests n)\<rparr>"
    have i1: "client_inv u ?n1" using rem RequestTimeout by (simp add: client_inv_def core_def)
    have "core (timer_fires u t n) = core ?n1"
      using Some RequestTimeout
      by (simp add: timer_fires_def request_timeout_def Let_def core_def send_def invoke_def)
    then show ?thesis using i1 by (rule client_inv_same)
  next
    case HandshakeTimer
    let ?n1 = "n\<lparr>timers := AList.delete t (timers n)\<rparr>"
    have i1: "client_inv u ?n1" using rem HandshakeTimer by (simp add: client_inv_def core_def)
    have "timer_fires u t n = fetchMCPHandshake u ?n1"
      using Some HandshakeTimer by (simp add: timer_fires_def Let_def)
    moreover have "client_inv u (fetchMCPHandshake u ?n1)"
      unfolding fetchMCPHandshake_def using i1 inv_sendRequest [OF i1 assms(2)] by simp
    ultimately show ?thesis by simp
  qed
qed

lemma inv_step:
  assumes "client_inv u n" "inj u"
  shows "client_inv u (client_step u n ev)"
  using assms
  by (cases ev)
    (simp_all add: inv_connect inv_disconnect inv_sendRequest inv_on_open inv_on_message
      inv_on_error inv_on_close inv_timer_fires inv_call_settled)

lemma inv_run:
  "client_inv u n \<Longrightarrow> inj u \<Longrightarrow> client_inv u (client_run u n evs)"
  unfolding client_run_def by (induction evs arbitrary: n) (simp_all add: inv_step)

lemma inv_init: "client_inv u (MCPClientNode url ctype rc acc)"
  unfolding client_inv_def core_def MCPClientNode_def
  by (simp, rule core_invI) simp_all

lemma keeps_same:
  "pendingRequests n' = pendingRequests n \<Longrightarrow> uuidCalls n' = uuidCalls n \<Longrightarrow> keeps u n n'"
  by (simp add: keeps_def)

lemma scheduleReconnect_pending:
  "pendingRequests (scheduleReconnect n) = pendingRequests n"
  "uuidCalls (scheduleReconnect n) = uuidCalls n"
  by (simp_all add: scheduleReconnect_def setTimeout_def)

lemma keeps_sendRequest: "keeps u n (sendRequest u method params f n)"
proof (cases "ws_ready n")
  case True
  from sendRequest_registers(3,5) [OF True] show ?thesis by (auto simp: keeps_def)
next
  case False
  from sendRequest_frame(2,5) [OF False] show ?thesis by (simp add: keeps_def)
qed

lemma keeps_connect: "keeps u n (connect f n)"
  by (rule keeps_same) (simp_all add: connect_frame)

lemma keeps_on_open: "keeps u n (on_open c ev n)"
  by (rule keeps_same)
    (simp_all add: on_open_def Let_def setTimeout_def invoke_def send_def split: option.splits)

lemma keeps_on_error: "keeps u n (on_error c n)"
  by (rule keeps_same)
    (simp_all add: on_error_def Let_def scheduleReconnect_pending split: option.splits)

lemma keeps_on_close: "keeps u n (on_close c code n)"
  by (rule keeps_same)
    (simp_all add: on_close_def Let_def scheduleReconnect_pending split: option.splits)

lemma keeps_call_settled: "keeps u n (call_settled h outcome n)"
  by (rule keeps_same)
    (simp_all add: call_settled_def Let_def scheduleReconnect_pending invoke_def send_def
      split: option.splits http_call.splits sum.splits)

lemma step_cases:
  "keeps u n (client_step u n ev)
   \<or> (\<exists>k. by_response n ev (client_step u n ev) k)
   \<or> (\<exists>k. by_timeout n ev (client_step u n ev) k)
   \<or> by_disconnect n ev (client_step u n ev)"
proof (cases ev)
  case (Connect f)
  then show ?thesis by (simp add: keeps_connect)
next
  case (Disconnect f)
  show ?thesis
  proof (cases "isConnected n")
    case True
    from disconnect_core [OF True, of f] have "by_disconnect n ev (client_step u n ev)"
      unfolding by_disconnect_def disconnect_outputs_def using Disconnect True by simp
    then show ?thesis by simp
  next
    case False
    then have "keeps u n (client_step u n ev)" using Disconnect
      by (intro keeps_same) (simp_all add: disconnect_def invoke_def)
    then show ?thesis by simp
  qed
next
  case (SendRequest m p f)
  then show ?thesis by (simp add: keeps_sendRequest)
next
  case (SockOpen c e)
  then show ?thesis by (simp add: keeps_on_open)
next
  case (SockMessage c parsed raw)
  from on_message_cases [of c parsed raw n] show ?thesis
  proof (elim disjE exE conjE)
    fix m assume "on_message c parsed raw n = send m n"
    then have "keeps u n (client_step u n ev)" using SockMessage
      by (intro keeps_same) (simp_all add: send_def)
    then show ?thesis by simp
  next
    assume "on_message c parsed raw n = n"
    then have "keeps u n (client_step u n ev)" using SockMessage by (intro keeps_same) simp_all
    then show ?thesis by simp
  next
    fix message k r
    assume a: "parsed = Some message" "js_get message ''id'' = JStr k"
      "map_of (pendingRequests n) k = Some r"
      "on_message c parsed raw n =
         send (JObj [(''topic'', JStr ''response''), (''payload'', message), (''requestId'', JStr k)])
           ((clearTimeout (timeout r) n)\<lparr>pendingRequests := AList.delete k (pendingRequests n)\<rparr>)"
    have "by_response n ev (client_step u n ev) k"
      unfolding by_response_def using SockMessage a
      by (simp add: send_def clearTimeout_def response_output_def)
    then show ?thesis by blast
  qed
next
  case (SockError c)
  then show ?thesis by (simp add: keeps_on_error)
next
  case (SockClose c code)
  then show ?thesis by (simp add: keeps_on_close)
next
  case (TimerFires t)
  show ?thesis
  proof (cases "map_of (timers n) t")
    case None
    then have "keeps u n (client_step u n ev)" using TimerFires
      by (intro keeps_same) (simp_all add: timer_fires_def)
    then show ?thesis by simp
  next
    case (Some k)
    show ?thesis
    proof (cases k)
      case ReconnectTimer
      have "keeps u n (client_step u n ev)" using TimerFires Some ReconnectTimer
        by (intro keeps_same)
          (simp_all add: timer_fires_def reconnect_timeout_def Let_def connect_frame)
      then show ?thesis by simp
    next
      case (RequestTimeout ident g)
      have "by_timeout n ev (client_step u n ev) ident"
        unfolding by_timeout_def using TimerFires Some RequestTimeout
        by (simp add: timer_fires_def request_timeout_def Let_def send_def invoke_def
            timeout_outputs_def)
      then show ?thesis by blast
    next
      case HandshakeTimer
      let ?n1 = "n\<lparr>timers := AList.delete t (timers n)\<rparr>"
      have e: "client_step u n ev = fetchMCPHandshake u ?n1"
        using TimerFires Some HandshakeTimer by (simp add: timer_fires_def Let_def)
      have "keeps u ?n1 (fetchMCPHandshake u ?n1)"
        unfolding fetchMCPHandshake_def using keeps_sendRequest [of u ?n1]
        by (simp add: keeps_def)
      then have "keeps u n (client_step u n ev)" unfolding e by (simp add: keeps_def)
      then show ?thesis by simp
    qed
  qed
next
  case (CallSettled h outcome)
  then show ?thesis by (simp add: keeps_call_settled)
qed

lemma gone_step:
  assumes "inj u" "ident \<in> u ` {..<uuidCalls n}" "map_of (pendingRequests n) ident = None"
  shows "ident \<in> u ` {..<uuidCalls (client_step u n ev)}
         \<and> map_of (pendingRequests (client_step u n ev)) ident = None"
  using step_cases [of u n ev]
proof (elim disjE exE)
  assume "keeps u n (client_step u n ev)"
  then show ?thesis unfolding keeps_def
  proof (elim disjE exE conjE)
    assume "pendingRequests (client_step u n ev) = pendingRequests n"
      "uuidCalls n \<le> uuidCalls (client_step u n ev)"
    then show ?thesis using assms(2,3) by auto
  next
    fix e
    assume a: "pendingRequests (client_step u n ev)
        = AList.update (u (uuidCalls n)) e (pendingRequests n)"
      "uuidCalls (client_step u n ev) = Suc (uuidCalls n)"
    from assms(2) obtain j where j: "j < uuidCalls n" "ident = u j" by auto
    with assms(1) have "ident \<noteq> u (uuidCalls n)" by (auto dest: injD)
    then show ?thesis using a assms(3) j by (auto simp: update_conv' lessThan_Suc)
  qed
next
  fix k assume "by_response n ev (client_step u n ev) k"
  then show ?thesis using assms(2,3) by (auto simp: by_response_def delete_conv')
next
  fix k assume "by_timeout n ev (client_step u n ev) k"
  then show ?thesis using assms(2,3) by (auto simp: by_timeout_def delete_conv')
next
  assume "by_disconnect n ev (client_step u n ev)"
  then show ?thesis using assms(2) by (auto simp: by_disconnect_def)
qed

lemma gone_run:
  assumes "inj u"
  shows "ident \<in> u ` {..<uuidCalls n} \<Longrightarrow> map_of (pendingRequests n) ident = None \<Longrightarrow>
         map_of (pendingRequests (client_run u n later)) ident = None"
proof (induction later arbitrary: n)
  case Nil
  then show ?case by (simp add: client_run_def)
next
  case (Cons ev later)
  from gone_step [OF assms Cons.prems, of ev]
  have "map_of (pendingRequests (client_run u (client_step u n ev) later)) ident = None"
    by (intro Cons.IH) simp_all
  then show ?case by (simp add: client_run_def)
qed

lemma uuidCalls_step: "uuidCalls n \<le> uuidCalls (client_step u n ev)"
  using step_cases [of u n ev]
  by (auto simp: keeps_def by_response_def by_timeout_def by_disconnect_def)

lemma client_inv_pending:
  assumes "client_inv u n" "map_of (pendingRequests n) ident = Some r"
  shows "map_of (timers n) (timeout r) = Some (RequestTimeout ident (callback r))"
    and "ident \<in> u ` {..<uuidCalls n}"
proof -
  from assms(1) have c: "core_inv u (timers n, nextHandle n, pendingRequests n, reconnectTimer n, uuidCalls n)"
    by (simp add: client_inv_def core_def)
  show "map_of (timers n) (timeout r) = Some (RequestTimeout ident (callback r))"
    using core_invD(4) [OF c assms(2)] .
  show "ident \<in> u ` {..<uuidCalls n}" using core_invD(7) [OF c assms(2)] .
qed

lemma client_inv_timer:
  assumes "client_inv u n" "map_of (timers n) t = Some (RequestTimeout ident g)"
  shows "map_of (pendingRequests n) ident = Some \<lparr>callback = g, timeout = t\<rparr>"
proof -
  from assms(1) have c: "core_inv u (timers n, nextHandle n, pendingRequests n, reconnectTimer n, uuidCalls n)"
    by (simp add: client_inv_def core_def)
  show ?thesis using core_invD(3) [OF c assms(2)] .
qed

lemma removal_cases:
  assumes "client_inv u n"
    and "map_of (pendingRequests n) ident = Some r"
    and "map_of (pendingRequests (client_step u n ev)) ident = None"
  shows "(by_response n ev (client_step u n ev) ident \<or> by_timeout n ev (client_step u n ev) ident
          \<or> by_disconnect n ev (client_step u n ev))
         \<and> map_of (timers (client_step u n ev)) (timeout r) = None"
  using step_cases [of u n ev]
proof (elim disjE exE)
  assume "keeps u n (client_step u n ev)"
  then have "map_of (pendingRequests (client_step u n ev)) ident \<noteq> None"
    unfolding keeps_def using assms(2) by (auto simp: update_conv')
  with assms(3) show ?thesis by simp
next
  fix k assume b: "by_response n ev (client_step u n ev) k"
  then obtain r' where r': "map_of (pendingRequests n) k = Some r'"
    "pendingRequests (client_step u n ev) = AList.delete k (pendingRequests n)"
    "timers (client_step u n ev) = AList.delete (timeout r') (timers n)"
    unfolding by_response_def by blast
  from r'(2) assms(2,3) have "k = ident" by (auto simp: delete_conv' split: if_splits)
  with r'(1) assms(2) have "r' = r" by simp
  with r'(3) b \<open>k = ident\<close> show ?thesis by (simp add: delete_conv')
next
  fix k assume b: "by_timeout n ev (client_step u n ev) k"
  then obtain t g where t: "map_of (timers n) t = Some (RequestTimeout k g)"
    "pendingRequests (client_step u n ev) = AList.delete k (pendingRequests n)"
    "timers (client_step u n ev) = AList.delete t (timers n)"
    unfolding by_timeout_def by blast
  from t(2) assms(2,3) have "k = ident" by (auto simp: delete_conv' split: if_splits)
  from client_inv_timer [OF assms(1) t(1)] \<open>k = ident\<close> assms(2)
  have "timeout r = t" by auto
  with t(3) b \<open>k = ident\<close> show ?thesis by (simp add: delete_conv')
next
  assume b: "by_disconnect n ev (client_step u n ev)"
  then have "timers (client_step u n ev) = after_disconnect n" by (auto simp: by_disconnect_def)
  moreover have "(ident, r) \<in> set (pendingRequests n)" using assms(2) by (rule map_of_SomeD)
  then have "timeout r \<in> (\<lambda>(ident, request). timeout request) ` set (pendingRequests n)"
    by force
  ultimately show ?thesis using b by (simp add: after_disconnect_map_of)
qed

lemma inj_uuid_seq: "inj uuid_seq"
proof (rule injI)
  fix a b assume "uuid_seq a = uuid_seq b"
  then have "length (uuid_seq a) = length (uuid_seq b)" by simp
  then show "a = b" by (simp add: uuid_seq_def)
qed

lemmas client_defs =
  client_run_def MCPClientNode_def ws_node_def sse_node_def uuid_seq_def
  connect_def connectHTTP_def connectSSE_def connectWebSocket_def new_socket_def
  disconnect_def close_socket_def sendRequest_def on_open_def on_message_def on_error_def
  on_close_def timer_fires_def call_settled_def request_timeout_def reconnect_timeout_def
  fetchMCPHandshake_def scheduleReconnect_def setTimeout_def clearTimeout_def send_def
  invoke_def pending_entry_def call_ok_def Let_def

lemma ws_connected_fields:
  "isConnected ws_connected" "connection ws_connected = Some 0"
  "sockets ws_connected = [(0, \<lparr>kind = WebSocketSock, readyState = Open, onConnect = NoCallback\<rparr>)]"
  "timers ws_connected = [(1, HandshakeTimer)]" "calls ws_connected = []"
  "pendingRequests ws_connected = []" "reconnectTimer ws_connected = None"
  by (simp_all add: ws_connected_def client_defs)

lemma ws_one_pending_fields:
  "isConnected ws_one_pending"
  "pendingRequests ws_one_pending = [(''u'', \<lparr>callback = Caller 1, timeout = 2\<rparr>)]"
  "timers ws_one_pending = [(1, HandshakeTimer), (2, RequestTimeout ''u'' (Caller 1))]"
  "outputs ws_one_pending =
     [Sent (JObj [(''topic'', JStr ''connected''),
        (''payload'', JObj [(''serverUrl'', JStr ''http://localhost:8000''),
                           (''connectionType'', JStr ''websocket'')])])]"
  by (simp_all add: ws_one_pending_def client_defs)

lemma ws_three_pending_fields:
  "isConnected ws_three_pending"
  "connection ws_three_pending = Some 0"
  "connectionType ws_three_pending = ''websocket''"
  "reconnectTimer ws_three_pending = None"
  "pendingRequests ws_three_pending =
     [(''u'', \<lparr>callback = Caller 1, timeout = 2\<rparr>),
      (''uu'', \<lparr>callback = Caller 2, timeout = 3\<rparr>),
      (''uuu'', \<lparr>callback = Caller 3, timeout = 4\<rparr>)]"
  "timers ws_three_pending =
     [(1, HandshakeTimer), (2, RequestTimeout ''u'' (Caller 1)),
      (3, RequestTimeout ''uu'' (Caller 2)), (4, RequestTimeout ''uuu'' (Caller 3))]"
  "sockets ws_three_pending = [(0, \<lparr>kind = WebSocketSock, readyState = Open, onConnect = NoCallback\<rparr>)]"
  by (simp_all add: ws_three_pending_def client_defs)

lemma close_socket_closed:
  "(c, sk) \<in> set (sockets n) \<Longrightarrow>
   (c, sk\<lparr>readyState := Closed\<rparr>) \<in> set (sockets (close_socket c n))"
  by (force simp: close_socket_def)

lemma disconnect_sockets:
  assumes "isConnected n"
  shows "sockets (disconnect f n) =
     (case connection n of
        None \<Rightarrow> sockets n
      | Some c \<Rightarrow> if connectionType n = ''sse'' \<or> connectionType n = ''websocket''
                  then sockets (close_socket c n) else sockets n)"
  using assms
  by (auto simp: disconnect_def Let_def fold_clear invoke_def clearTimeout_def close_socket_def
      split: option.splits)

lemma length_le_one:
  assumes "distinct xs" "\<And>x y. x \<in> set xs \<Longrightarrow> y \<in> set xs \<Longrightarrow> x = y"
  shows "length xs \<le> 1"
proof (cases xs)
  case Nil
  then show ?thesis by simp
next
  case (Cons x ys)
  have "ys = []"
  proof (cases ys)
    case Nil
    then show ?thesis .
  next
    case (Cons y zs)
    with \<open>xs = x # ys\<close> assms(2) [of x y] have "x = y" by simp
    with Cons \<open>xs = x # ys\<close> assms(1) show ?thesis by simp
  qed
  with Cons show ?thesis by simp
qed

lemma reconnect_timers_le_one:
  assumes "client_inv u n"
  shows "length (filter (\<lambda>tk. snd tk = ReconnectTimer) (timers n)) \<le> 1"
    and "reconnectTimer n = None \<Longrightarrow> filter (\<lambda>tk. snd tk = ReconnectTimer) (timers n) = []"
proof -
  from assms have c: "core_inv u (timers n, nextHandle n, pendingRequests n, reconnectTimer n, uuidCalls n)"
    by (simp add: client_inv_def core_def)
  note d = core_invD [OF c]
  have mem: "reconnectTimer n = Some (fst tk) \<and> snd tk = ReconnectTimer"
    if "tk \<in> set (filter (\<lambda>tk. snd tk = ReconnectTimer) (timers n))" for tk
  proof -
    from that have "(fst tk, ReconnectTimer) \<in> set (timers n)" and s: "snd tk = ReconnectTimer"
      by (auto simp: prod_eq_iff [symmetric] intro: prod.expand) (metis prod.collapse)+
    with d(2) have "map_of (timers n) (fst tk) = Some ReconnectTimer"
      by (intro map_of_is_SomeI)
    from d(5) [OF this] s show ?thesis by simp
  qed
  have "distinct (map fst (filter (\<lambda>tk. snd tk = ReconnectTimer) (timers n)))"
    using d(2) by (rule distinct_map_filter)
  then have dist: "distinct (filter (\<lambda>tk. snd tk = ReconnectTimer) (timers n))"
    by (rule distinct_map [THEN iffD1, THEN conjunct1])
  show "length (filter (\<lambda>tk. snd tk = ReconnectTimer) (timers n)) \<le> 1"
    using dist
  proof (rule length_le_one)
    fix x y
    assume "x \<in> set (filter (\<lambda>tk. snd tk = ReconnectTimer) (timers n))"
      "y \<in> set (filter (\<lambda>tk. snd tk = ReconnectTimer) (timers n))"
    from mem [OF this(1)] mem [OF this(2)] show "x = y" by (auto intro: prod_eqI)
  qed
  show "filter (\<lambda>tk. snd tk = ReconnectTimer) (timers n) = []" if "reconnectTimer n = None"
  proof (cases "filter (\<lambda>tk. snd tk = ReconnectTimer) (timers n)")
    case Nil
    then show ?thesis .
  next
    case (Cons x xs)
    then have "x \<in> set (filter (\<lambda>tk. snd tk = ReconnectTimer) (timers n))" by simp
    from mem [OF this] that show ?thesis by simp
  qed
qed

section \<open>MCP client: removal of pending requests\<close>

text \<open>
  Claim C2, as amended. In every state a node reaches from its initial state, each entry
  of \<open>pendingRequests\<close> has its own timeout armed. When a step removes an entry, the
  step is one of three: a parsed WebSocket message whose \<open>id\<close> is the entry's key (the
  entry's timeout is cleared), the entry's own timeout firing (the callback gets
  \<open>Request timeout\<close>), or \<open>disconnect\<close> on a connected node (every pending timeout is
  cleared, the table emptied). After the removal the entry's timeout is no longer armed,
  and in every continuation the identifier is never in the table again and no timeout for
  it is armed: it can be removed only once. Identifiers are taken from an injective
  generator \<open>u\<close>, as \<open>uuidv4\<close> provides.
\<close>

theorem pending_removed_once:
  assumes "inj u"
    and "n = client_run u (MCPClientNode url ctype rc acc) evs"
    and "n' = client_step u n ev"
  shows "(\<forall>ident r. map_of (pendingRequests n) ident = Some r \<longrightarrow>
            map_of (timers n) (timeout r) = Some (RequestTimeout ident (callback r)))
       \<and> (\<forall>ident r. map_of (pendingRequests n) ident = Some r
              \<and> map_of (pendingRequests n') ident = None \<longrightarrow>
            (by_response n ev n' ident \<or> by_timeout n ev n' ident \<or> by_disconnect n ev n')
            \<and> map_of (timers n') (timeout r) = None
            \<and> (\<forall>later. map_of (pendingRequests (client_run u n' later)) ident = None
                  \<and> (\<forall>t g. map_of (timers (client_run u n' later)) t
                              \<noteq> Some (RequestTimeout ident g))))"
proof (intro conjI allI impI)
  have inv: "client_inv u n" unfolding assms(2) using inv_init assms(1) by (rule inv_run)
  have inv': "client_inv u n'" unfolding assms(3) using inv assms(1) by (rule inv_step)
  show "map_of (timers n) (timeout r) = Some (RequestTimeout ident (callback r))"
    if "map_of (pendingRequests n) ident = Some r" for ident r
    using inv that by (rule client_inv_pending(1))
  fix ident r
  assume a: "map_of (pendingRequests n) ident = Some r \<and> map_of (pendingRequests n') ident = None"
  from removal_cases [OF inv, of ident r ev] a
  show "by_response n ev n' ident \<or> by_timeout n ev n' ident \<or> by_disconnect n ev n'"
    and "map_of (timers n') (timeout r) = None"
    by (simp_all add: assms(3))
  have gen: "ident \<in> u ` {..<uuidCalls n'}"
  proof -
    from a have "ident \<in> u ` {..<uuidCalls n}" using client_inv_pending(2) [OF inv] by blast
    then obtain j where "j < uuidCalls n" "ident = u j" by auto
    moreover have "uuidCalls n \<le> uuidCalls n'" unfolding assms(3) by (rule uuidCalls_step)
    ultimately show ?thesis by auto
  qed
  fix later
  have gone: "map_of (pendingRequests (client_run u n' later)) ident = None"
    using assms(1) gen a by (intro gone_run) simp_all
  then show "map_of (pendingRequests (client_run u n' later)) ident = None" .
  fix t g
  show "map_of (timers (client_run u n' later)) t \<noteq> Some (RequestTimeout ident g)"
  proof
    assume "map_of (timers (client_run u n' later)) t = Some (RequestTimeout ident g)"
    moreover have "client_inv u (client_run u n' later)" using inv' assms(1) by (rule inv_run)
    ultimately have "map_of (pendingRequests (client_run u n' later)) ident
        = Some \<lparr>callback = g, timeout = t\<rparr>"
      by (intro client_inv_timer)
    with gone show False by simp
  qed
qed

theorem pending_removed_once_witness:
  "by_response ws_one_pending (SockMessage 0 (Some reply_u) ''raw'')
     (client_step uuid_seq ws_one_pending (SockMessage 0 (Some reply_u) ''raw'')) ''u''
   \<and> map_of (timers (client_step uuid_seq ws_one_pending (SockMessage 0 (Some reply_u) ''raw''))) 2 = None
   \<and> map_of (pendingRequests (client_run uuid_seq
         (client_step uuid_seq ws_one_pending (SockMessage 0 (Some reply_u) ''raw''))
         [TimerFires 2, SockMessage 0 (Some reply_u) ''raw''])) ''u'' = None"
proof -
  have a: "map_of (pendingRequests ws_one_pending) ''u'' = Some \<lparr>callback = Caller 1, timeout = 2\<rparr>"
    by (simp add: ws_one_pending_fields)
  have b: "map_of (pendingRequests (client_step uuid_seq ws_one_pending
              (SockMessage 0 (Some reply_u) ''raw''))) ''u'' = None"
    by (simp add: ws_one_pending_def reply_u_def client_defs)
  have c: "\<not> by_timeout ws_one_pending (SockMessage 0 (Some reply_u) ''raw'')
     (client_step uuid_seq ws_one_pending (SockMessage 0 (Some reply_u) ''raw'')) ''u''"
    "\<not> by_disconnect ws_one_pending (SockMessage 0 (Some reply_u) ''raw'')
     (client_step uuid_seq ws_one_pending (SockMessage 0 (Some reply_u) ''raw''))"
    by (simp_all add: by_timeout_def by_disconnect_def)
  from pending_removed_once [OF inj_uuid_seq ws_one_pending_def [unfolded ws_node_def] refl,
      of "SockMessage 0 (Some reply_u) ''raw''"] a b c
  show ?thesis by fastforce
qed

text \<open>One request is pending on a connected WebSocket node and \<open>disconnect\<close> is called:
  the entry leaves the table, no message matched it and its timeout did not fire; nothing
  is emitted and its timeout is cancelled.\<close>

theorem pending_removed_by_disconnect_counterexample:
  "map fst (pendingRequests ws_one_pending) = [''u'']
   \<and> pendingRequests (client_step uuid_seq ws_one_pending (Disconnect NoCallback)) = []
   \<and> outputs (client_step uuid_seq ws_one_pending (Disconnect NoCallback)) = outputs ws_one_pending
   \<and> timers (client_step uuid_seq ws_one_pending (Disconnect NoCallback)) = [(1, HandshakeTimer)]"
proof -
  note d = disconnect_core [OF ws_one_pending_fields(1), of NoCallback]
  show ?thesis
    by (simp add: d after_disconnect_def ws_one_pending_fields)
      (simp add: ws_one_pending_def client_defs)
qed

section \<open>MCP client: disconnect\<close>

lemma close_socket_others:
  "(h, sk) \<in> set (sockets n) \<Longrightarrow> h \<noteq> c \<Longrightarrow> (h, sk) \<in> set (sockets (close_socket c n))"
  by (force simp: close_socket_def)

text \<open>
  Claim C1, as amended. On a connected node with any number of pending requests,
  \<open>disconnect\<close> cancels the reconnect timer if one is set; closes the connection object
  held in \<open>node.connection\<close>, if there is one and the node is an \<open>sse\<close> or
  \<open>websocket\<close> node, and sets \<open>node.connection\<close> to \<open>null\<close>; leaves every other
  connection object the node has created as it is; cancels the timeout of every pending
  request and empties the table; and leaves the node disconnected with status
  \<open>disconnected\<close>. The only callback it invokes is its own, with
  \<open>{success: true, message: "Disconnected"}\<close>: no pending request's callback is invoked.
  On a node that is not connected, \<open>disconnect\<close> only answers its callback with
  \<open>Already disconnected\<close> and changes nothing else.
\<close>

theorem disconnect_effect:
  "(isConnected n \<longrightarrow>
      reconnectTimer (disconnect f n) = None
      \<and> (\<forall>t. reconnectTimer n = Some t \<longrightarrow> map_of (timers (disconnect f n)) t = None)
      \<and> connection (disconnect f n) = None
      \<and> (\<forall>c sk. connection n = Some c
            \<and> (connectionType n = ''sse'' \<or> connectionType n = ''websocket'')
            \<and> (c, sk) \<in> set (sockets n) \<longrightarrow>
            (c, sk\<lparr>readyState := Closed\<rparr>) \<in> set (sockets (disconnect f n)))
      \<and> (\<forall>h sk. (h, sk) \<in> set (sockets n) \<and> connection n \<noteq> Some h \<longrightarrow>
            (h, sk) \<in> set (sockets (disconnect f n)))
      \<and> (connection n = None
           \<or> (connectionType n \<noteq> ''sse'' \<and> connectionType n \<noteq> ''websocket'') \<longrightarrow>
            sockets (disconnect f n) = sockets n)
      \<and> pendingRequests (disconnect f n) = []
      \<and> (\<forall>ident r. (ident, r) \<in> set (pendingRequests n) \<longrightarrow>
            map_of (timers (disconnect f n)) (timeout r) = None)
      \<and> outputs (disconnect f n) =
          outputs n @ (if f = NoCallback then []
                       else [Invoked f None (call_ok True ''Disconnected'' [])])
      \<and> \<not> isConnected (disconnect f n)
      \<and> status (disconnect f n) = ''disconnected'')
   \<and> (\<not> isConnected n \<longrightarrow>
      disconnect f n = invoke f None (call_ok True ''Already disconnected'' []) n)"
proof (intro conjI impI allI)
  assume c: "isConnected n"
  note d = disconnect_core [OF c, of f]
  show "reconnectTimer (disconnect f n) = None" by (rule d(3))
  show "connection (disconnect f n) = None" by (rule d(7))
  show "pendingRequests (disconnect f n) = []" by (rule d(2))
  show "outputs (disconnect f n) =
          outputs n @ (if f = NoCallback then []
                       else [Invoked f None (call_ok True ''Disconnected'' [])])" by (rule d(9))
  show "\<not> isConnected (disconnect f n)" by (rule d(6))
  show "status (disconnect f n) = ''disconnected''" by (rule d(8))
  show "map_of (timers (disconnect f n)) t = None" if "reconnectTimer n = Some t" for t
    unfolding d(1) using that by (simp add: after_disconnect_map_of)
  show "map_of (timers (disconnect f n)) (timeout r) = None"
    if "(ident, r) \<in> set (pendingRequests n)" for ident r
  proof -
    from that have "timeout r \<in> (\<lambda>(ident, request). timeout request) ` set (pendingRequests n)"
      by force
    then show ?thesis unfolding d(1) by (simp add: after_disconnect_map_of)
  qed
  show "(c', sk\<lparr>readyState := Closed\<rparr>) \<in> set (sockets (disconnect f n))"
    if "connection n = Some c'
            \<and> (connectionType n = ''sse'' \<or> connectionType n = ''websocket'')
            \<and> (c', sk) \<in> set (sockets n)" for c' sk
    using that close_socket_closed [of c' sk n] by (auto simp: disconnect_sockets [OF c])
  show "(h, sk) \<in> set (sockets (disconnect f n))"
    if "(h, sk) \<in> set (sockets n) \<and> connection n \<noteq> Some h" for h sk
    using that close_socket_others [of h sk n]
    by (auto simp: disconnect_sockets [OF c] split: option.splits)
  show "sockets (disconnect f n) = sockets n"
    if "connection n = None
           \<or> (connectionType n \<noteq> ''sse'' \<and> connectionType n \<noteq> ''websocket'')"
    using that by (auto simp: disconnect_sockets [OF c] split: option.splits)
next
  assume "\<not> isConnected n"
  then show "disconnect f n = invoke f None (call_ok True ''Already disconnected'' []) n"
    by (simp add: disconnect_def)
qed

theorem disconnect_effect_witness:
  "pendingRequests (disconnect (Caller 0) ws_three_pending) = []
   \<and> map_of (timers (disconnect (Caller 0) ws_three_pending)) 3 = None
   \<and> (0, \<lparr>kind = WebSocketSock, readyState = Closed, onConnect = NoCallback\<rparr>)
        \<in> set (sockets (disconnect (Caller 0) ws_three_pending))
   \<and> \<not> isConnected (disconnect (Caller 0) ws_three_pending)
   \<and> disconnect (Caller 0) ws_node =
       invoke (Caller 0) None (call_ok True ''Already disconnected'' []) ws_node"
  using disconnect_effect [of ws_three_pending "Caller 0"] disconnect_effect [of ws_node "Caller 0"]
  by (simp add: ws_three_pending_fields) (simp add: ws_node_def MCPClientNode_def)

text \<open>Three requests are pending when \<open>disconnect\<close> is called: the table is emptied and
  the only output is the answer to the caller of \<open>disconnect\<close>; none of the three callbacks
  is invoked. After a connection error has armed the reconnect timer, the node is not
  connected and \<open>disconnect\<close> leaves that timer armed. On an \<open>sse\<close> node that holds two
  open event sources, \<open>disconnect\<close> closes the one in \<open>node.connection\<close> and leaves the
  other open.\<close>

theorem disconnect_pending_counterexample:
  "map fst (pendingRequests ws_three_pending) = [''u'', ''uu'', ''uuu'']
   \<and> pendingRequests (disconnect (Caller 0) ws_three_pending) = []
   \<and> outputs (disconnect (Caller 0) ws_three_pending) =
       outputs ws_three_pending @ [Invoked (Caller 0) None (call_ok True ''Disconnected'' [])]
   \<and> reconnectTimer (client_run uuid_seq ws_node
         [Connect NoCallback, SockError 0, Disconnect NoCallback]) = Some 1
   \<and> timers (client_run uuid_seq ws_node
         [Connect NoCallback, SockError 0, Disconnect NoCallback]) = [(1, ReconnectTimer)]
   \<and> sockets (client_run uuid_seq sse_node
         [Connect NoCallback, Connect NoCallback, SockOpen 0 JNull, SockOpen 1 JNull,
          Disconnect NoCallback]) =
       [(0, \<lparr>kind = EventSourceSock, readyState = Open, onConnect = NoCallback\<rparr>),
        (1, \<lparr>kind = EventSourceSock, readyState = Closed, onConnect = NoCallback\<rparr>)]"
proof -
  have "outputs (disconnect (Caller 0) ws_three_pending) =
       outputs ws_three_pending @ [Invoked (Caller 0) None (call_ok True ''Disconnected'' [])]"
    using disconnect_core(9) [OF ws_three_pending_fields(1), of "Caller 0"] by simp
  moreover have "pendingRequests (disconnect (Caller 0) ws_three_pending) = []"
    using disconnect_core(2) [OF ws_three_pending_fields(1)] .
  moreover have "reconnectTimer (client_run uuid_seq ws_node
         [Connect NoCallback, SockError 0, Disconnect NoCallback]) = Some 1"
    "timers (client_run uuid_seq ws_node
         [Connect NoCallback, SockError 0, Disconnect NoCallback]) = [(1, ReconnectTimer)]"
    by (simp_all add: client_defs)
  moreover have "sockets (client_run uuid_seq sse_node
         [Connect NoCallback, Connect NoCallback, SockOpen 0 JNull, SockOpen 1 JNull,
          Disconnect NoCallback]) =
       [(0, \<lparr>kind = EventSourceSock, readyState = Open, onConnect = NoCallback\<rparr>),
        (1, \<lparr>kind = EventSourceSock, readyState = Closed, onConnect = NoCallback\<rparr>)]"
    by (simp add: client_defs)
  ultimately show ?thesis by (simp add: ws_three_pending_fields)
qed

section \<open>MCP client: connect and the reconnect timer\<close>

text \<open>
  Claim C10, as amended. In every state a node reaches from its initial state:
  \<open>connect\<close> on a connected node creates no connection object, starts no HTTP call and
  leaves \<open>node.connection\<close> as it is; at most one reconnect timer is armed, and none when
  \<open>reconnectTimer\<close> is unset; \<open>scheduleReconnect\<close> changes nothing while
  \<open>reconnectTimer\<close> is set.
\<close>

theorem connect_guard_and_reconnect_timer:
  assumes "inj u" and "n = client_run u (MCPClientNode url ctype rc acc) evs"
  shows "(isConnected n \<longrightarrow>
            sockets (connect f n) = sockets n \<and> connection (connect f n) = connection n
            \<and> calls (connect f n) = calls n)
       \<and> length (filter (\<lambda>tk. snd tk = ReconnectTimer) (timers n)) \<le> 1
       \<and> (reconnectTimer n \<noteq> None \<longrightarrow> scheduleReconnect n = n)
       \<and> (reconnectTimer n = None \<longrightarrow> filter (\<lambda>tk. snd tk = ReconnectTimer) (timers n) = [])"
proof (intro conjI impI)
  have inv: "client_inv u n" unfolding assms(2) using inv_init assms(1) by (rule inv_run)
  show "length (filter (\<lambda>tk. snd tk = ReconnectTimer) (timers n)) \<le> 1"
    using inv by (rule reconnect_timers_le_one(1))
  show "filter (\<lambda>tk. snd tk = ReconnectTimer) (timers n) = []" if "reconnectTimer n = None"
    using inv that by (rule reconnect_timers_le_one(2))
  show "scheduleReconnect n = n" if "reconnectTimer n \<noteq> None"
    using that by (simp add: scheduleReconnect_def)
  assume c: "isConnected n"
  show "sockets (connect f n) = sockets n" using c by (simp add: connect_def invoke_def)
  show "connection (connect f n) = connection n" using c by (simp add: connect_def invoke_def)
  show "calls (connect f n) = calls n" using c by (simp add: connect_def invoke_def)
qed

theorem connect_guard_and_reconnect_timer_witness:
  "sockets (connect (Caller 1) ws_connected) = sockets ws_connected
   \<and> length (filter (\<lambda>tk. snd tk = ReconnectTimer) (timers (client_run uuid_seq ws_node
        [Connect NoCallback, SockError 0, SockError 0]))) \<le> 1
   \<and> scheduleReconnect (client_run uuid_seq ws_node [Connect NoCallback, SockError 0])
       = client_run uuid_seq ws_node [Connect NoCallback, SockError 0]"
proof -
  have r: "reconnectTimer (client_run uuid_seq ws_node [Connect NoCallback, SockError 0]) = Some 1"
    by (simp add: client_defs)
  from connect_guard_and_reconnect_timer [OF inj_uuid_seq ws_connected_def [unfolded ws_node_def],
      of "Caller 1"]
    connect_guard_and_reconnect_timer [OF inj_uuid_seq refl,
      of "''http://localhost:8000''" "''websocket''" False True
         "[Connect NoCallback, SockError 0, SockError 0]" NoCallback]
    connect_guard_and_reconnect_timer [OF inj_uuid_seq refl,
      of "''http://localhost:8000''" "''websocket''" False True
         "[Connect NoCallback, SockError 0]" NoCallback]
    r
  show ?thesis by (simp add: ws_connected_fields ws_node_def)
qed

text \<open>\<open>connect\<close> is called twice on an \<open>sse\<close> node before the first \<open>EventSource\<close> has
  opened: the node is not yet connected, a second \<open>EventSource\<close> is created, and both
  are open at the same time once their \<open>onopen\<close> handlers have run.\<close>

theorem second_connection_counterexample:
  "\<not> isConnected (client_run uuid_seq sse_node [Connect NoCallback])
   \<and> sockets (client_run uuid_seq sse_node [Connect NoCallback, Connect NoCallback]) =
       [(0, \<lparr>kind = EventSourceSock, readyState = Connecting, onConnect = NoCallback\<rparr>),
        (1, \<lparr>kind = EventSourceSock, readyState = Connecting, onConnect = NoCallback\<rparr>)]
   \<and> sockets (client_run uuid_seq sse_node
         [Connect NoCallback, Connect NoCallback, SockOpen 0 JNull, SockOpen 1 JNull]) =
       [(0, \<lparr>kind = EventSourceSock, readyState = Open, onConnect = NoCallback\<rparr>),
        (1, \<lparr>kind = EventSourceSock, readyState = Open, onConnect = NoCallback\<rparr>)]"
  by (simp add: client_defs)

end
